theory Spec2Isabelle
  imports Complex_Main "HOL-Library.Sublist"
begin

section \<open>The repository tree\<close>

text \<open>
  The scanner of \<^verbatim>\<open>auto_ci.py\<close> reads the file system through \<^verbatim>\<open>pathlib\<close>:
  \<^verbatim>\<open>Path.exists\<close>, \<^verbatim>\<open>Path.rglob\<close>, \<^verbatim>\<open>Path.is_file\<close>, \<^verbatim>\<open>Path.name\<close>,
  \<^verbatim>\<open>Path.suffix\<close>, \<^verbatim>\<open>Path.relative_to\<close> and \<^verbatim>\<open>Path.read_text\<close>. A repository is
  modelled as the list of the entries below its root, in the order in which a recursive
  walk meets them. An entry is a regular file, with what reading it as UTF-8 text gives,
  a directory, or an entry below a directory that denies search permission: the walk
  lists its name, and every call that needs its status or its contents raises
  \<^verbatim>\<open>PermissionError\<close>. Symbolic links and special files are not modelled. Python's
  \<^verbatim>\<open>float\<close> is idealised as \<^typ>\<open>real\<close>: sums of the increments are exact.
\<close>

datatype exn =
    ValueError string
  | UnicodeDecodeError
  | PermissionError
  | IsADirectoryError

datatype contents =
    Text string
  | Undecodable
  | NoPermission

datatype entry =
    is_file: File (rel_path: string) (contents: contents)
  | is_dir: Dir (rel_path: string)
  | Denied (rel_path: string)

type_synonym tree = "entry list"

datatype node = RegularFile | Directory tree

type_synonym filesystem = "string \<rightharpoonup> node"

text \<open>\<^verbatim>\<open>Path.name\<close>: the final component of a path.\<close>

definition name_of :: "string \<Rightarrow> string" where
  "name_of p = rev (takeWhile (\<lambda>c. c \<noteq> CHR ''/'') (rev p))"

text \<open>
  \<^verbatim>\<open>Path.suffix\<close>: the part of the name from its last dot, when that dot is neither
  the first nor the last character of the name.
\<close>

fun rfind :: "string \<Rightarrow> char \<Rightarrow> nat option" where
  "rfind [] c = None"
| "rfind (x # xs) c =
     (case rfind xs c of
        Some i \<Rightarrow> Some (Suc i)
      | None \<Rightarrow> if x = c then Some 0 else None)"

definition path_suffix :: "string \<Rightarrow> string" where
  "path_suffix p =
     (let nm = name_of p in
      case rfind nm CHR ''.'' of
        None \<Rightarrow> []
      | Some i \<Rightarrow> if 0 < i \<and> i < length nm - 1 then drop i nm else [])"

text \<open>
  \<^verbatim>\<open>Path.read_text(encoding='utf-8')\<close>: the text of a file, or the exception raised.
\<close>

fun read_text :: "entry \<Rightarrow> exn + string" where
  "read_text (File p (Text s)) = Inr s"
| "read_text (File p Undecodable) = Inl UnicodeDecodeError"
| "read_text (File p NoPermission) = Inl PermissionError"
| "read_text (Dir p) = Inl IsADirectoryError"
| "read_text (Denied p) = Inl PermissionError"

text \<open>
  \<^verbatim>\<open>Path.is_file()\<close>: whether the path is a regular file. It reads the status of the
  path, and of the errors of that call it swallows only those that say that the path does
  not exist; \<^verbatim>\<open>PermissionError\<close> is raised to the caller.
\<close>

fun path_is_file :: "entry \<Rightarrow> exn + bool" where
  "path_is_file (File p c) = Inr True"
| "path_is_file (Dir p) = Inr False"
| "path_is_file (Denied p) = Inl PermissionError"

subsection \<open>Glob patterns\<close>

text \<open>
  The patterns of the catalog use literal characters and \<^verbatim>\<open>*\<close> only. A pattern is
  matched against the name of an entry; \<^verbatim>\<open>*\<close> stands for any run of characters.
\<close>

fun fnmatch :: "string \<Rightarrow> string \<Rightarrow> bool" where
  "fnmatch [] s = (s = [])"
| "fnmatch (c # pat) [] = (c = CHR ''*'' \<and> fnmatch pat [])"
| "fnmatch (c # pat) (x # xs) =
     (if c = CHR ''*'' then fnmatch pat (x # xs) \<or> fnmatch (c # pat) xs
      else c = x \<and> fnmatch pat xs)"

text \<open>
  Matching is that of the \<^verbatim>\<open>pathlib\<close> of Python 3.11. A pattern that ends with a
  separator (\<^verbatim>\<open>spec/\<close>) selects directories only. A pattern with \<^verbatim>\<open>*\<close> is matched
  against the names that the listing of a directory gives, with no call on the entry. A
  pattern without \<^verbatim>\<open>*\<close> is looked up by \<^verbatim>\<open>Path.exists\<close> in every directory of the
  walk, and a \<^verbatim>\<open>PermissionError\<close> of that call ends the lookup with no match.
\<close>

definition glob_matches :: "string \<Rightarrow> entry \<Rightarrow> bool" where
  "glob_matches pat e =
     (if pat \<noteq> [] \<and> last pat = CHR ''/''
      then is_dir e \<and> fnmatch (butlast pat) (name_of (rel_path e))
      else (is_file e \<or> is_dir e \<or> CHR ''*'' \<in> set pat) \<and>
           fnmatch pat (name_of (rel_path e)))"

text \<open>\<^verbatim>\<open>list(repo_path.rglob(pattern))\<close>: the entries below the root that match.\<close>

definition rglob :: "tree \<Rightarrow> string \<Rightarrow> entry list" where
  "rglob t pat = filter (glob_matches pat) t"

subsection \<open>Regular expressions\<close>

text \<open>
  The regular expressions of the catalog are sequences of: a literal character, \<^verbatim>\<open>.\<close>
  (any character but a newline), \<^verbatim>\<open>.*\<close>, a character class and \<^verbatim>\<open>$\<close> (the end of
  the string, or the position before a final newline). \<^verbatim>\<open>re.search\<close> asks for a match
  starting anywhere.
\<close>

datatype rx_item =
    Chr char
  | AnyChar
  | AnyStar
  | OneOf string
  | Eos

type_synonym regex = "rx_item list"

definition newline :: char where
  "newline = CHR 0x0A"

fun re_match_here :: "regex \<Rightarrow> string \<Rightarrow> bool" where
  "re_match_here [] s = True"
| "re_match_here (Eos # r) s = ((s = [] \<or> s = [newline]) \<and> re_match_here r s)"
| "re_match_here (AnyStar # r) [] = re_match_here r []"
| "re_match_here (AnyStar # r) (x # xs) =
     (re_match_here r (x # xs) \<or> (x \<noteq> newline \<and> re_match_here (AnyStar # r) xs))"
| "re_match_here (Chr c # r) [] = False"
| "re_match_here (Chr c # r) (x # xs) = (x = c \<and> re_match_here r xs)"
| "re_match_here (AnyChar # r) [] = False"
| "re_match_here (AnyChar # r) (x # xs) = (x \<noteq> newline \<and> re_match_here r xs)"
| "re_match_here (OneOf cs # r) [] = False"
| "re_match_here (OneOf cs # r) (x # xs) = (x \<in> set cs \<and> re_match_here r xs)"

fun re_search :: "regex \<Rightarrow> string \<Rightarrow> bool" where
  "re_search r [] = re_match_here r []"
| "re_search r (x # xs) = (re_match_here r (x # xs) \<or> re_search r xs)"

definition lit :: "string \<Rightarrow> regex" where
  "lit s = map Chr s"

section \<open>Data model\<close>

record DetectedTechnology =
  name :: string
  version :: "string option"
  files :: "string list"
  confidence :: real

record RepoAnalysis =
  languages :: "DetectedTechnology list"
  frameworks :: "DetectedTechnology list"
  test_tools :: "DetectedTechnology list"
  build_tools :: "DetectedTechnology list"
  containers :: "DetectedTechnology list"
  infrastructure :: "DetectedTechnology list"
  package_managers :: "DetectedTechnology list"
  repo_path :: string
  primary_language :: "string option"

text \<open>
  \<^verbatim>\<open>max(xs, key=...)\<close> on a non-empty list: the running best is replaced only by a
  strictly greater key.
\<close>

definition py_max_key :: "('a \<Rightarrow> real) \<Rightarrow> 'a \<Rightarrow> 'a list \<Rightarrow> 'a" where
  "py_max_key key x xs = foldl (\<lambda>best y. if key best < key y then y else best) x xs"

text \<open>\<^verbatim>\<open>RepoAnalysis.__post_init__\<close>, run by the constructor.\<close>

definition RepoAnalysis_init ::
  "DetectedTechnology list \<Rightarrow> DetectedTechnology list \<Rightarrow> DetectedTechnology list \<Rightarrow>
   DetectedTechnology list \<Rightarrow> DetectedTechnology list \<Rightarrow> DetectedTechnology list \<Rightarrow>
   DetectedTechnology list \<Rightarrow> string \<Rightarrow> string option \<Rightarrow> RepoAnalysis" where
  "RepoAnalysis_init ls fws tts bts cs infra pms path primary =
     \<lparr>languages = ls, frameworks = fws, test_tools = tts, build_tools = bts,
      containers = cs, infrastructure = infra, package_managers = pms, repo_path = path,
      primary_language =
        (case (primary, ls) of
           (None, l # rest) \<Rightarrow> Some (name (py_max_key confidence l rest))
         | _ \<Rightarrow> primary)\<rparr>"

text \<open>
  A rule of the catalog. A missing \<^verbatim>\<open>files\<close> or \<^verbatim>\<open>patterns\<close> key reads as the empty
  list and a missing \<^verbatim>\<open>language\<close> as the empty string (\<^verbatim>\<open>rules.get\<close>); the scanner
  asks whether \<^verbatim>\<open>content_patterns\<close> is present, so that field is optional.
\<close>

record rule =
  r_files :: "string list"
  r_patterns :: "regex list"
  r_content_patterns :: "regex list option"
  r_language :: string

type_synonym rules = "(string \<times> rule) list"

type_synonym evidence = "real \<times> string list"

section \<open>The rule catalog\<close>

definition dquote :: char where
  "dquote = CHR 0x22"

definition squote :: char where
  "squote = CHR 0x27"

definition quoted :: "string \<Rightarrow> regex" where
  "quoted s = Chr dquote # lit s @ [Chr dquote]"

definition file_rule :: "string list \<Rightarrow> string \<Rightarrow> rule" where
  "file_rule fs lang =
     \<lparr>r_files = fs, r_patterns = [], r_content_patterns = None, r_language = lang\<rparr>"

definition content_rule :: "string list \<Rightarrow> regex list \<Rightarrow> string \<Rightarrow> rule" where
  "content_rule fs cps lang =
     \<lparr>r_files = fs, r_patterns = [], r_content_patterns = Some cps, r_language = lang\<rparr>"

definition language_rule :: "string list \<Rightarrow> regex list \<Rightarrow> rule" where
  "language_rule fs ps =
     \<lparr>r_files = fs, r_patterns = ps, r_content_patterns = None, r_language = []\<rparr>"

definition language_rules :: rules where
  "language_rules =
    [(''python'', language_rule
        [''*.py'', ''requirements.txt'', ''setup.py'', ''pyproject.toml'', ''Pipfile'']
        [lit ''.py'' @ [Eos], lit ''requirements'' @ [AnyStar] @ lit ''.txt'' @ [Eos],
         lit ''setup.py'' @ [Eos]]),
     (''javascript'', language_rule
        [''package.json'', ''*.js'', ''*.ts'', ''yarn.lock'', ''package-lock.json'']
        [lit ''package.json'' @ [Eos], lit ''.js'' @ [Eos], lit ''.ts'' @ [Eos]]),
     (''go'', language_rule
        [''go.mod'', ''go.sum'', ''*.go'']
        [lit ''go.mod'' @ [Eos], lit ''.go'' @ [Eos]]),
     (''java'', language_rule
        [''pom.xml'', ''build.gradle'', ''*.java'', ''gradlew'']
        [lit ''pom.xml'' @ [Eos], lit ''build.gradle'' @ [Eos], lit ''.java'' @ [Eos]]),
     (''rust'', language_rule
        [''Cargo.toml'', ''Cargo.lock'', ''*.rs'']
        [lit ''Cargo.toml'' @ [Eos], lit ''.rs'' @ [Eos]]),
     (''php'', language_rule
        [''composer.json'', ''composer.lock'', ''*.php'']
        [lit ''composer.json'' @ [Eos], lit ''.php'' @ [Eos]]),
     (''ruby'', language_rule
        [''Gemfile'', ''Gemfile.lock'', ''*.rb'', ''*.gemspec'']
        [lit ''Gemfile'' @ [Eos], lit ''.rb'' @ [Eos]]),
     (''csharp'', language_rule
        [''*.csproj'', ''*.sln'', ''*.cs'', ''packages.config'']
        [lit ''.csproj'' @ [Eos], lit ''.cs'' @ [Eos], lit ''.sln'' @ [Eos]])]"

definition framework_rules :: rules where
  "framework_rules =
    [(''django'', file_rule [''manage.py'', ''settings.py''] ''python''),
     (''flask'', content_rule [''app.py''] [lit ''from flask import''] ''python''),
     (''fastapi'', content_rule [] [lit ''from fastapi import''] ''python''),
     (''react'', content_rule [''package.json''] [quoted ''react''] ''javascript''),
     (''vue'', content_rule [''package.json''] [quoted ''vue''] ''javascript''),
     (''angular'', file_rule [''angular.json'', ''package.json''] ''javascript''),
     (''express'', content_rule [''package.json''] [quoted ''express''] ''javascript''),
     (''spring'', content_rule [''pom.xml''] [lit ''spring-boot''] ''java''),
     (''gin'', content_rule []
        [Chr dquote # lit ''github'' @ [AnyChar] @ lit ''com/gin-gonic/gin'' @ [Chr dquote]]
        ''go''),
     (''laravel'', file_rule [''artisan'', ''composer.json''] ''php''),
     (''rails'', content_rule [''Gemfile'']
        [lit ''gem '' @ [OneOf [dquote, squote]] @ lit ''rails'' @ [OneOf [dquote, squote]]]
        ''ruby'')]"

definition test_tool_rules :: rules where
  "test_tool_rules =
    [(''pytest'', content_rule [''pytest.ini'', ''pyproject.toml''] [lit ''pytest''] ''python''),
     (''unittest'', content_rule [] [lit ''import unittest''] ''python''),
     (''jest'', content_rule [''jest.config.js'', ''package.json''] [quoted ''jest'']
        ''javascript''),
     (''mocha'', content_rule [''package.json''] [quoted ''mocha''] ''javascript''),
     (''junit'', content_rule [''pom.xml''] [lit ''junit''] ''java''),
     (''go test'',
        \<lparr>r_files = [], r_patterns = [lit ''_test.go'' @ [Eos]],
         r_content_patterns = None, r_language = ''go''\<rparr>),
     (''phpunit'', file_rule [''phpunit.xml'', ''composer.json''] ''php''),
     (''rspec'', file_rule [''.rspec'', ''spec/''] ''ruby'')]"

definition build_tool_rules :: rules where
  "build_tool_rules =
    [(''webpack'', file_rule [''webpack.config.js'', ''package.json''] ''javascript''),
     (''gulp'', file_rule [''gulpfile.js''] ''javascript''),
     (''grunt'', file_rule [''Gruntfile.js''] ''javascript''),
     (''maven'', file_rule [''pom.xml''] ''java''),
     (''gradle'', file_rule [''build.gradle'', ''gradlew''] ''java''),
     (''make'', file_rule [''Makefile'', ''makefile''] []),
     (''cmake'', file_rule [''CMakeLists.txt''] []),
     (''setuptools'', file_rule [''setup.py''] ''python''),
     (''poetry'', file_rule [''pyproject.toml''] ''python'')]"

definition container_rules :: rules where
  "container_rules =
    [(''docker'', file_rule [''Dockerfile'', ''docker-compose.yml'', ''.dockerignore''] []),
     (''podman'', file_rule [''Containerfile''] []),
     (''kubernetes'', content_rule [''*.yaml'', ''*.yml'']
        [lit ''apiVersion:'', lit ''kind:''] [])]"

definition infrastructure_rules :: rules where
  "infrastructure_rules =
    [(''terraform'', file_rule [''*.tf'', ''terraform.tfvars''] []),
     (''ansible'', content_rule [''*.yml'', ''ansible.cfg'']
        [lit ''hosts:'', lit ''tasks:''] []),
     (''helm'', file_rule [''Chart.yaml'', ''values.yaml''] []),
     (''cloudformation'', content_rule [''*.json'', ''*.yaml'']
        [lit ''AWSTemplateFormatVersion''] [])]"

text \<open>The table \<^verbatim>\<open>pm_files\<close> of \<^verbatim>\<open>_detect_package_managers\<close>.\<close>

definition pm_files :: "(string \<times> string list) list" where
  "pm_files =
    [(''npm'', [''package-lock.json'', ''package.json'']),
     (''yarn'', [''yarn.lock'']),
     (''pnpm'', [''pnpm-lock.yaml'']),
     (''pip'', [''requirements.txt'', ''Pipfile'']),
     (''poetry'', [''poetry.lock'']),
     (''composer'', [''composer.lock'']),
     (''bundler'', [''Gemfile.lock'']),
     (''maven'', [''pom.xml'']),
     (''gradle'', [''build.gradle'', ''gradle.properties'']),
     (''go modules'', [''go.mod'']),
     (''cargo'', [''Cargo.lock''])]"

section \<open>The evidence accumulators and the category scanners\<close>

text \<open>
  Every scanner runs, for each rule, over a pair \<^verbatim>\<open>(confidence, found_files)\<close> that
  starts at \<open>(0, [])\<close>. A rule whose confidence ends above zero is emitted with its
  confidence clamped at 1; the emitted list is sorted by \<^verbatim>\<open>sorted(..., reverse=True)\<close>,
  a stable sort by descending confidence.
\<close>

definition emit :: "string \<Rightarrow> evidence \<Rightarrow> DetectedTechnology list" where
  "emit nm s =
     (if 0 < fst s
      then [\<lparr>name = nm, version = None, files = snd s, confidence = min (fst s) 1\<rparr>]
      else [])"

definition sorted_desc :: "DetectedTechnology list \<Rightarrow> DetectedTechnology list" where
  "sorted_desc ts = sort_key (\<lambda>x. - confidence x) ts"

definition emit_list ::
  "(string \<Rightarrow> 'r \<Rightarrow> evidence) \<Rightarrow> (string \<times> 'r) list \<Rightarrow> DetectedTechnology list" where
  "emit_list ev rs = concat (map (\<lambda>(nm, r). emit nm (ev nm r)) rs)"

fun emit_all ::
  "(string \<Rightarrow> 'r \<Rightarrow> exn + evidence) \<Rightarrow> (string \<times> 'r) list \<Rightarrow>
   exn + DetectedTechnology list" where
  "emit_all ev [] = Inr []"
| "emit_all ev ((nm, r) # rest) =
     (case ev nm r of
        Inl x \<Rightarrow> Inl x
      | Inr s \<Rightarrow>
          (case emit_all ev rest of
             Inl x \<Rightarrow> Inl x
           | Inr ts \<Rightarrow> Inr (emit nm s @ ts)))"

text \<open>A loop over a list whose body may raise: the first exception ends it.\<close>

fun try_fold :: "('s \<Rightarrow> 'a \<Rightarrow> exn + 's) \<Rightarrow> 'a list \<Rightarrow> 's \<Rightarrow> exn + 's" where
  "try_fold f [] s = Inr s"
| "try_fold f (x # xs) s =
     (case f s x of
        Inl e \<Rightarrow> Inl e
      | Inr s' \<Rightarrow> try_fold f xs s')"

text \<open>
  \<^verbatim>\<open>try: content = f.read_text(encoding='utf-8'); ...
  except (UnicodeDecodeError, PermissionError): continue\<close>
\<close>

definition try_read :: "entry \<Rightarrow> (string \<Rightarrow> 's) \<Rightarrow> 's \<Rightarrow> exn + 's" where
  "try_read e body s =
     (case read_text e of
        Inr content \<Rightarrow> Inr (body content)
      | Inl UnicodeDecodeError \<Rightarrow> Inr s
      | Inl PermissionError \<Rightarrow> Inr s
      | Inl x \<Rightarrow> Inl x)"

definition any_search :: "regex list \<Rightarrow> string \<Rightarrow> bool" where
  "any_search cps content = list_ex (\<lambda>pattern. re_search pattern content) cps"

text \<open>
  \<^verbatim>\<open>confidence += w; found_files.extend([... for m in matches[:3]])\<close>, and the same
  under \<^verbatim>\<open>if matches:\<close> for one glob trigger.
\<close>

definition add_flat :: "real \<Rightarrow> entry list \<Rightarrow> evidence \<Rightarrow> evidence" where
  "add_flat w matches s = (fst s + w, snd s @ map rel_path (take 3 matches))"

definition flat_trigger :: "real \<Rightarrow> tree \<Rightarrow> evidence \<Rightarrow> string \<Rightarrow> evidence" where
  "flat_trigger w t s pat =
     (let matches = rglob t pat in if matches \<noteq> [] then add_flat w matches s else s)"

text \<open>
  One candidate file of a content scan: read it, and on the first content pattern that
  matches add \<open>w\<close> and record the path.
\<close>

definition content_step :: "real \<Rightarrow> regex list \<Rightarrow> evidence \<Rightarrow> entry \<Rightarrow> exn + evidence" where
  "content_step w cps s e =
     try_read e
       (\<lambda>content. if any_search cps content then (fst s + w, snd s @ [rel_path e]) else s) s"

subsection \<open>Languages\<close>

definition lang_file_step :: "tree \<Rightarrow> evidence \<Rightarrow> string \<Rightarrow> evidence" where
  "lang_file_step t s pat =
     (let matches = rglob t pat in
      if matches \<noteq> []
      then (fst s + 0.3 * real (length matches), snd s @ map rel_path (take 5 matches))
      else s)"

text \<open>
  \<^verbatim>\<open>if file_path.is_file() and re.search(pattern, file_path.name): ...\<close> The call of
  \<^verbatim>\<open>is_file\<close> comes first and is under no \<^verbatim>\<open>try\<close>.
\<close>

definition lang_name_step :: "regex \<Rightarrow> evidence \<Rightarrow> entry \<Rightarrow> exn + evidence" where
  "lang_name_step pattern s e =
     (case path_is_file e of
        Inl x \<Rightarrow> Inl x
      | Inr regular \<Rightarrow>
          Inr (if regular \<and> re_search pattern (name_of (rel_path e))
               then (fst s + 0.2,
                     if rel_path e \<notin> set (snd s) then snd s @ [rel_path e] else snd s)
               else s))"

definition lang_file_channel :: "tree \<Rightarrow> rule \<Rightarrow> evidence" where
  "lang_file_channel t r = foldl (lang_file_step t) (0, []) (r_files r)"

definition lang_evidence :: "tree \<Rightarrow> rule \<Rightarrow> exn + evidence" where
  "lang_evidence t r =
     try_fold (\<lambda>s pattern. try_fold (lang_name_step pattern) (rglob t ''*'') s)
       (r_patterns r)
       (lang_file_channel t r)"

definition detect_languages :: "rules \<Rightarrow> tree \<Rightarrow> exn + DetectedTechnology list" where
  "detect_languages rs t = map_sum id sorted_desc (emit_all (\<lambda>lang. lang_evidence t) rs)"

subsection \<open>Frameworks\<close>

definition fw_file_extensions :: "(string \<times> string list) list" where
  "fw_file_extensions =
    [(''python'', [''.py'']), (''javascript'', [''.js'', ''.ts'']), (''java'', [''.java'']),
     (''go'', [''.go'']), (''php'', [''.php'']), (''ruby'', [''.rb''])]"

definition fw_file_step :: "tree \<Rightarrow> rule \<Rightarrow> evidence \<Rightarrow> string \<Rightarrow> exn + evidence" where
  "fw_file_step t r s pat =
     (let matches = rglob t pat in
      if matches \<noteq> []
      then (case r_content_patterns r of
              Some cps \<Rightarrow> try_fold (content_step 0.8 cps) matches s
            | None \<Rightarrow> Inr (add_flat 0.5 matches s))
      else Inr s)"

definition ext_scan ::
  "(evidence \<Rightarrow> entry \<Rightarrow> exn + evidence) \<Rightarrow> tree \<Rightarrow> (string \<times> string list) list \<Rightarrow>
   string \<Rightarrow> evidence \<Rightarrow> exn + evidence" where
  "ext_scan step t file_extensions language s =
     (case map_of file_extensions language of
        Some exts \<Rightarrow> try_fold (\<lambda>s ext. try_fold step (rglob t (''*'' @ ext)) s) exts s
      | None \<Rightarrow> Inr s)"

definition fw_file_channel :: "tree \<Rightarrow> rule \<Rightarrow> exn + evidence" where
  "fw_file_channel t r = try_fold (fw_file_step t r) (r_files r) (0, [])"

definition fw_evidence :: "tree \<Rightarrow> rule \<Rightarrow> exn + evidence" where
  "fw_evidence t r =
     (case fw_file_channel t r of
        Inl x \<Rightarrow> Inl x
      | Inr s \<Rightarrow>
          (case r_content_patterns r of
             Some cps \<Rightarrow>
               if snd s = []
               then ext_scan (content_step 0.3 cps) t fw_file_extensions (r_language r) s
               else Inr s
           | None \<Rightarrow> Inr s))"

definition detect_frameworks :: "rules \<Rightarrow> tree \<Rightarrow> exn + DetectedTechnology list" where
  "detect_frameworks rs t = map_sum id sorted_desc (emit_all (\<lambda>framework. fw_evidence t) rs)"

subsection \<open>Test tools\<close>

definition tt_file_extensions :: "(string \<times> string list) list" where
  "tt_file_extensions =
    [(''python'', [''.py'']), (''javascript'', [''.js'', ''.ts'']), (''java'', [''.java''])]"

definition tt_name_step :: "regex \<Rightarrow> evidence \<Rightarrow> entry \<Rightarrow> exn + evidence" where
  "tt_name_step pattern s e =
     (case path_is_file e of
        Inl x \<Rightarrow> Inl x
      | Inr regular \<Rightarrow>
          Inr (if regular \<and> re_search pattern (name_of (rel_path e))
               then (fst s + 0.4, snd s @ [rel_path e])
               else s))"

definition tt_content_step :: "regex list \<Rightarrow> evidence \<Rightarrow> entry \<Rightarrow> exn + evidence" where
  "tt_content_step cps s e =
     try_read e
       (\<lambda>content.
          if any_search cps content
          then (fst s + 0.3,
                if rel_path e \<notin> set (snd s) then snd s @ [rel_path e] else snd s)
          else s) s"

definition tt_file_channel :: "tree \<Rightarrow> rule \<Rightarrow> evidence" where
  "tt_file_channel t r = foldl (flat_trigger 0.6 t) (0, []) (r_files r)"

definition tt_name_channel :: "tree \<Rightarrow> rule \<Rightarrow> exn + evidence" where
  "tt_name_channel t r =
     try_fold (\<lambda>s pattern. try_fold (tt_name_step pattern) (rglob t ''*'') s)
       (r_patterns r)
       (tt_file_channel t r)"

definition tt_evidence :: "tree \<Rightarrow> rule \<Rightarrow> exn + evidence" where
  "tt_evidence t r =
     (case tt_name_channel t r of
        Inl x \<Rightarrow> Inl x
      | Inr s \<Rightarrow>
          (case r_content_patterns r of
             Some cps \<Rightarrow> ext_scan (tt_content_step cps) t tt_file_extensions (r_language r) s
           | None \<Rightarrow> Inr s))"

definition detect_test_tools :: "rules \<Rightarrow> tree \<Rightarrow> exn + DetectedTechnology list" where
  "detect_test_tools rs t = map_sum id sorted_desc (emit_all (\<lambda>tool. tt_evidence t) rs)"

subsection \<open>Build tools\<close>

definition bt_evidence :: "tree \<Rightarrow> rule \<Rightarrow> evidence" where
  "bt_evidence t r = foldl (flat_trigger 0.8 t) (0, []) (r_files r)"

definition detect_build_tools :: "rules \<Rightarrow> tree \<Rightarrow> DetectedTechnology list" where
  "detect_build_tools rs t = sorted_desc (emit_list (\<lambda>tool. bt_evidence t) rs)"

subsection \<open>Containers\<close>

definition k8s_step :: "regex list \<Rightarrow> evidence \<Rightarrow> entry \<Rightarrow> exn + evidence" where
  "k8s_step cps s m =
     (if path_suffix (rel_path m) \<in> set [''.yaml'', ''.yml'']
      then try_read m
             (\<lambda>content.
                if any_search cps content then (fst s + 0.7, snd s @ [rel_path m]) else s) s
      else Inr s)"

definition ct_file_step :: "string \<Rightarrow> tree \<Rightarrow> rule \<Rightarrow> evidence \<Rightarrow> string \<Rightarrow> exn + evidence" where
  "ct_file_step tech t r s pat =
     (let matches = rglob t pat in
      if matches \<noteq> []
      then (case r_content_patterns r of
              Some cps \<Rightarrow>
                if tech = ''kubernetes''
                then try_fold (k8s_step cps) matches s
                else Inr (add_flat 0.8 matches s)
            | None \<Rightarrow> Inr (add_flat 0.8 matches s))
      else Inr s)"

definition ct_evidence :: "tree \<Rightarrow> string \<Rightarrow> rule \<Rightarrow> exn + evidence" where
  "ct_evidence t tech r = try_fold (ct_file_step tech t r) (r_files r) (0, [])"

definition detect_containers :: "rules \<Rightarrow> tree \<Rightarrow> exn + DetectedTechnology list" where
  "detect_containers rs t = map_sum id sorted_desc (emit_all (ct_evidence t) rs)"

subsection \<open>Infrastructure\<close>

definition infra_file_step :: "tree \<Rightarrow> rule \<Rightarrow> evidence \<Rightarrow> string \<Rightarrow> exn + evidence" where
  "infra_file_step t r s pat =
     (let matches = rglob t pat in
      if matches \<noteq> []
      then (case r_content_patterns r of
              Some cps \<Rightarrow> try_fold (content_step 0.8 cps) matches s
            | None \<Rightarrow> Inr (add_flat 0.7 matches s))
      else Inr s)"

definition infra_evidence :: "tree \<Rightarrow> rule \<Rightarrow> exn + evidence" where
  "infra_evidence t r = try_fold (infra_file_step t r) (r_files r) (0, [])"

definition detect_infrastructure :: "rules \<Rightarrow> tree \<Rightarrow> exn + DetectedTechnology list" where
  "detect_infrastructure rs t =
     map_sum id sorted_desc (emit_all (\<lambda>tech. infra_evidence t) rs)"

subsection \<open>Package managers\<close>

definition pm_evidence :: "tree \<Rightarrow> string list \<Rightarrow> evidence" where
  "pm_evidence t fs = foldl (flat_trigger 0.8 t) (0, []) fs"

definition detect_package_managers ::
  "(string \<times> string list) list \<Rightarrow> tree \<Rightarrow> DetectedTechnology list" where
  "detect_package_managers pms t = sorted_desc (emit_list (\<lambda>pm. pm_evidence t) pms)"

section \<open>The assembler\<close>

text \<open>
  \<^verbatim>\<open>scan_repository\<close> takes the path as resolved. It raises when nothing exists at the
  path; it has no test that the path is a directory. \<^verbatim>\<open>rglob\<close> below a path that is
  not a directory yields nothing.
\<close>

definition listing :: "node \<Rightarrow> tree" where
  "listing n = (case n of Directory t \<Rightarrow> t | RegularFile \<Rightarrow> [])"

definition scan_repository :: "filesystem \<Rightarrow> string \<Rightarrow> exn + RepoAnalysis" where
  "scan_repository fs path =
     (case fs path of
        None \<Rightarrow> Inl (ValueError (''Repository path does not exist: '' @ path))
      | Some n \<Rightarrow>
          (let t = listing n;
               analysis = RepoAnalysis_init [] [] [] [] [] [] [] path None
           in case detect_languages language_rules t of
                Inl x \<Rightarrow> Inl x
              | Inr ls \<Rightarrow>
           (let analysis = analysis\<lparr>languages := ls\<rparr>
            in case detect_frameworks framework_rules t of
                Inl x \<Rightarrow> Inl x
              | Inr fws \<Rightarrow>
           (case detect_test_tools test_tool_rules t of
                Inl x \<Rightarrow> Inl x
              | Inr tts \<Rightarrow>
           (let analysis = analysis\<lparr>frameworks := fws, test_tools := tts,
                             build_tools := detect_build_tools build_tool_rules t\<rparr>
            in case detect_containers container_rules t of
                Inl x \<Rightarrow> Inl x
              | Inr cs \<Rightarrow>
           (case detect_infrastructure infrastructure_rules t of
                Inl x \<Rightarrow> Inl x
              | Inr infra \<Rightarrow>
           (let analysis = analysis\<lparr>containers := cs, infrastructure := infra,
                             package_managers := detect_package_managers pm_files t\<rparr>
            in Inr (case languages analysis of
                      [] \<Rightarrow> analysis
                    | l # rest \<Rightarrow>
                        analysis\<lparr>primary_language :=
                          Some (name (py_max_key confidence l rest))\<rparr>))))))))"

text \<open>
  What lines 173--174 leave in \<^verbatim>\<open>primary_language\<close>, which the constructor left at
  \<^verbatim>\<open>None\<close> because the language list was still empty.
\<close>

definition primary_of :: "DetectedTechnology list \<Rightarrow> string option" where
  "primary_of ls =
     (case ls of [] \<Rightarrow> None | l # rest \<Rightarrow> Some (name (py_max_key confidence l rest)))"

section \<open>Trees used as examples\<close>

definition scenario_a :: tree where
  "scenario_a =
     [File ''requirements.txt'' (Text ''flask==2.3.2''),
      File ''app.py'' (Text ''from flask import Flask'')]"

definition tie_tree :: tree where
  "tie_tree = [File ''a.py'' (Text []), File ''b.js'' (Text [])]"

definition tie_analysis :: RepoAnalysis where
  "tie_analysis =
     \<lparr>languages =
        [\<lparr>name = ''python'', version = None, files = [''a.py''], confidence = 1 / 2\<rparr>,
         \<lparr>name = ''javascript'', version = None, files = [''b.js''], confidence = 1 / 2\<rparr>],
      frameworks = [], test_tools = [], build_tools = [], containers = [],
      infrastructure = [], package_managers = [],
      repo_path = ''/repo'', primary_language = Some ''python''\<rparr>"

section \<open>Predicates of the specification\<close>

text \<open>
  A category list is ranked when its confidences descend and, for every confidence, the
  entries that have it come in the order of the catalog.
\<close>

definition ranked :: "string list \<Rightarrow> DetectedTechnology list \<Rightarrow> bool" where
  "ranked names ts \<longleftrightarrow>
     sorted (rev (map confidence ts)) \<and>
     (\<forall>k. subseq (map name (filter (\<lambda>t. confidence t = k) ts)) names)"

definition scenario_a_analysis :: RepoAnalysis where
  "scenario_a_analysis =
     \<lparr>languages =
        [\<lparr>name = ''python'', version = None, files = [''app.py'', ''requirements.txt''],
          confidence = 1\<rparr>],
      frameworks =
        [\<lparr>name = ''flask'', version = None, files = [''app.py''], confidence = 4 / 5\<rparr>],
      test_tools = [], build_tools = [], containers = [], infrastructure = [],
      package_managers =
        [\<lparr>name = ''pip'', version = None, files = [''requirements.txt''],
          confidence = 4 / 5\<rparr>],
      repo_path = ''/repo'', primary_language = Some ''python''\<rparr>"

definition recorded :: "evidence \<Rightarrow> bool" where
  "recorded s \<longleftrightarrow> (0 < fst s \<longrightarrow> snd s \<noteq> [])"

definition unconfirmed :: "regex list \<Rightarrow> entry \<Rightarrow> bool" where
  "unconfirmed cps e =
     (case read_text e of Inr content \<Rightarrow> \<not> any_search cps content | Inl x \<Rightarrow> True)"

definition no_evidence :: "tree \<Rightarrow> rule \<Rightarrow> bool" where
  "no_evidence t r \<longleftrightarrow>
     list_all (\<lambda>pat. rglob t pat = []) (r_files r) \<and>
     list_all (\<lambda>pattern.
        list_all (\<lambda>e. \<not> (is_file e \<and> re_search pattern (name_of (rel_path e)))) t)
       (r_patterns r) \<and>
     (case r_content_patterns r of
        None \<Rightarrow> True
      | Some cps \<Rightarrow> list_all (unconfirmed cps) t)"

definition categories :: "RepoAnalysis \<Rightarrow> DetectedTechnology list list" where
  "categories a =
     [languages a, frameworks a, test_tools a, build_tools a, containers a,
      infrastructure a, package_managers a]"

text \<open>
  An emitted entry comes from a rule of the catalog whose evidence has a positive
  confidence; the entry carries the clamped confidence and the recorded paths.
\<close>

definition emitted_by ::
  "(string \<Rightarrow> 'r \<Rightarrow> evidence \<Rightarrow> bool) \<Rightarrow> (string \<times> 'r) list \<Rightarrow> DetectedTechnology \<Rightarrow> bool"
  where
  "emitted_by run rs t \<longleftrightarrow>
     (\<exists>nm r s. (nm, r) \<in> set rs \<and> run nm r s \<and> 0 < fst s \<and>
        t = \<lparr>name = nm, version = None, files = snd s, confidence = min (fst s) 1\<rparr>)"

definition go_rule :: rule where
  "go_rule = language_rule [''go.mod'', ''go.sum'', ''*.go''] [lit ''go.mod'' @ [Eos], lit ''.go'' @ [Eos]]"

definition django_rule :: rule where
  "django_rule = file_rule [''manage.py'', ''settings.py''] ''python''"

definition total_matches :: "tree \<Rightarrow> string list \<Rightarrow> nat" where
  "total_matches t pats = sum_list (map (\<lambda>pat. length (rglob t pat)) pats)"

definition nonempty_triggers :: "tree \<Rightarrow> string list \<Rightarrow> nat" where
  "nonempty_triggers t pats = length (filter (\<lambda>pat. rglob t pat \<noteq> []) pats)"

definition confirmed :: "regex list \<Rightarrow> entry \<Rightarrow> bool" where
  "confirmed cps e =
     (case read_text e of Inr content \<Rightarrow> any_search cps content | Inl x \<Rightarrow> False)"

definition confirmed_matches :: "regex list \<Rightarrow> tree \<Rightarrow> string list \<Rightarrow> nat" where
  "confirmed_matches cps t pats =
     sum_list (map (\<lambda>pat. length (filter (confirmed cps) (rglob t pat))) pats)"

definition k8s_confirmed_matches :: "regex list \<Rightarrow> tree \<Rightarrow> string list \<Rightarrow> nat" where
  "k8s_confirmed_matches cps t pats =
     sum_list (map (\<lambda>pat. length (filter
        (\<lambda>m. path_suffix (rel_path m) \<in> set [''.yaml'', ''.yml''] \<and> confirmed cps m)
        (rglob t pat))) pats)"

definition pom_only :: tree where
  "pom_only = [File ''pom.xml'' (Text ''<project/>'')]"

definition flask_rule :: rule where
  "flask_rule = content_rule [''app.py''] [lit ''from flask import''] ''python''"

definition junit_rule :: rule where
  "junit_rule = content_rule [''pom.xml''] [lit ''junit''] ''java''"

definition maven_rule :: rule where
  "maven_rule = file_rule [''pom.xml''] ''java''"

definition pom_only_analysis :: RepoAnalysis where
  "pom_only_analysis =
     \<lparr>languages =
        [\<lparr>name = ''java'', version = None, files = [''pom.xml''], confidence = 1 / 2\<rparr>],
      frameworks = [],
      test_tools =
        [\<lparr>name = ''junit'', version = None, files = [''pom.xml''], confidence = 3 / 5\<rparr>],
      build_tools =
        [\<lparr>name = ''maven'', version = None, files = [''pom.xml''], confidence = 4 / 5\<rparr>],
      containers = [], infrastructure = [],
      package_managers =
        [\<lparr>name = ''maven'', version = None, files = [''pom.xml''], confidence = 4 / 5\<rparr>],
      repo_path = ''/repo'', primary_language = Some ''java''\<rparr>"

definition setup_only :: tree where
  "setup_only = [File ''setup.py'' (Text ''from setuptools import setup'')]"

definition setup_only_analysis :: RepoAnalysis where
  "setup_only_analysis =
     \<lparr>languages =
        [\<lparr>name = ''python'', version = None, files = [''setup.py'', ''setup.py''],
          confidence = 1\<rparr>],
      frameworks = [], test_tools = [],
      build_tools =
        [\<lparr>name = ''setuptools'', version = None, files = [''setup.py''],
          confidence = 4 / 5\<rparr>],
      containers = [], infrastructure = [], package_managers = [],
      repo_path = ''/repo'', primary_language = Some ''python''\<rparr>"

definition flask_fallback :: tree where
  "flask_fallback =
     [File ''a.py'' (Text ''from flask import Flask''),
      File ''b.py'' (Text ''from flask import Flask''),
      File ''c.py'' (Text ''from flask import Flask'')]"

definition flask_app :: entry where
  "flask_app = File ''app.py'' (Text ''from flask import Flask'')"

fun as_empty :: "entry \<Rightarrow> entry" where
  "as_empty (File p (Text s)) = File p (Text s)"
| "as_empty (File p Undecodable) = File p (Text [])"
| "as_empty (File p NoPermission) = File p (Text [])"
| "as_empty (Dir p) = Dir p"
| "as_empty (Denied p) = Denied p"


text \<open>
  The globs whose matches a content scan opens with \<^verbatim>\<open>read_text\<close>: the file triggers
  of the framework and infrastructure rules that have content patterns and of kubernetes,
  and the extensions that the fallback scan of the frameworks and the content scan of the
  test tools walk for the language of such a rule.
\<close>

definition ext_globs :: "(string \<times> string list) list \<Rightarrow> string \<Rightarrow> string list" where
  "ext_globs file_extensions language =
     (case map_of file_extensions language of
        Some exts \<Rightarrow> map (\<lambda>ext. ''*'' @ ext) exts
      | None \<Rightarrow> [])"

definition read_globs :: "string list" where
  "read_globs =
     concat (map (\<lambda>(nm, r). case r_content_patterns r of
                    Some cps \<Rightarrow> r_files r @ ext_globs fw_file_extensions (r_language r)
                  | None \<Rightarrow> []) framework_rules) @
     concat (map (\<lambda>(nm, r). case r_content_patterns r of
                    Some cps \<Rightarrow> ext_globs tt_file_extensions (r_language r)
                  | None \<Rightarrow> []) test_tool_rules) @
     concat (map (\<lambda>(nm, r). case r_content_patterns r of
                    Some cps \<Rightarrow> if nm = ''kubernetes'' then r_files r else []
                  | None \<Rightarrow> []) container_rules) @
     concat (map (\<lambda>(nm, r). case r_content_patterns r of
                    Some cps \<Rightarrow> r_files r
                  | None \<Rightarrow> []) infrastructure_rules)"

definition triggers :: "string list \<Rightarrow> entry \<Rightarrow> bool" where
  "triggers pats e = list_ex (\<lambda>pat. glob_matches pat e) pats"


text \<open>
  A tree is scannable when each of its entries is a regular file, readable or not, or a
  directory that matches none of the globs that a content scan opens.
\<close>

definition scannable :: "tree \<Rightarrow> bool" where
  "scannable t = list_all (\<lambda>e. is_file e \<or> (is_dir e \<and> \<not> triggers read_globs e)) t"






definition locked_tree :: tree where
  "locked_tree = [Dir ''locked'', Denied ''locked/a.py'']"





definition grown :: "entry list \<Rightarrow> entry list \<Rightarrow> bool" where
  "grown es es' \<longleftrightarrow>
     es' = es \<or> (\<exists>as bs x. es = as @ bs \<and> es' = as @ x # bs \<and> is_file x)"

definition grounded :: "evidence \<Rightarrow> bool" where
  "grounded s \<longleftrightarrow> 0 \<le> fst s \<and> (snd s \<noteq> [] \<longrightarrow> 0 < fst s)"

text \<open>
  A category list is retained by a later one when every technology of the first is in the
  second, under the same name and with a confidence that is not smaller; it is retained
  above \<open>b\<close> when the confidence is not smaller or is at least \<open>b\<close>. Names in the
  later list are distinct, so the name picks one entry.
\<close>

definition retained_above ::
  "real \<Rightarrow> DetectedTechnology list \<Rightarrow> DetectedTechnology list \<Rightarrow> bool" where
  "retained_above b ts ts' \<longleftrightarrow>
     distinct (map name ts') \<and>
     (\<forall>t \<in> set ts. \<exists>t' \<in> set ts'.
        name t' = name t \<and> (confidence t \<le> confidence t' \<or> b \<le> confidence t'))"

definition retained :: "DetectedTechnology list \<Rightarrow> DetectedTechnology list \<Rightarrow> bool" where
  "retained ts ts' \<longleftrightarrow>
     distinct (map name ts') \<and>
     (\<forall>t \<in> set ts. \<exists>t' \<in> set ts'. name t' = name t \<and> confidence t \<le> confidence t')"

definition flask_fallback_analysis :: RepoAnalysis where
  "flask_fallback_analysis =
     \<lparr>languages =
        [\<lparr>name = ''python'', version = None, files = [''a.py'', ''b.py'', ''c.py''],
          confidence = 1\<rparr>],
      frameworks =
        [\<lparr>name = ''flask'', version = None, files = [''a.py'', ''b.py'', ''c.py''],
          confidence = 9 / 10\<rparr>],
      test_tools = [], build_tools = [], containers = [], infrastructure = [],
      package_managers = [], repo_path = ''/repo'',
      primary_language = Some ''python''\<rparr>"

section \<open>The assembler, unfolded\<close>

lemma scan_repository_Inr:
  "scan_repository fs path = Inr a \<longleftrightarrow>
     (\<exists>n ls fws tts cs infra.
        fs path = Some n \<and>
        detect_languages language_rules (listing n) = Inr ls \<and>
        detect_frameworks framework_rules (listing n) = Inr fws \<and>
        detect_test_tools test_tool_rules (listing n) = Inr tts \<and>
        detect_containers container_rules (listing n) = Inr cs \<and>
        detect_infrastructure infrastructure_rules (listing n) = Inr infra \<and>
        a = \<lparr>languages = ls, frameworks = fws, test_tools = tts,
             build_tools = detect_build_tools build_tool_rules (listing n),
             containers = cs, infrastructure = infra,
             package_managers = detect_package_managers pm_files (listing n),
             repo_path = path, primary_language = primary_of ls\<rparr>)"
  unfolding scan_repository_def RepoAnalysis_init_def Let_def primary_of_def
  by (auto split: option.splits sum.splits list.splits)

lemma empty_tree:
  "detect_languages language_rules [] = Inr []"
  "detect_frameworks framework_rules [] = Inr []"
  "detect_test_tools test_tool_rules [] = Inr []"
  "detect_build_tools build_tool_rules [] = []"
  "detect_containers container_rules [] = Inr []"
  "detect_infrastructure infrastructure_rules [] = Inr []"
  "detect_package_managers pm_files [] = []"
  by code_simp+

section \<open>Path validation\<close>

text \<open>
  C3, as the code has it. When nothing exists at the path, \<^verbatim>\<open>scan_repository\<close> raises
  \<^verbatim>\<open>ValueError\<close> whatever the scanners would find, and returns no analysis. A path
  that exists and is not a directory is not rejected: the scan returns an analysis whose
  seven lists are empty and whose primary language is \<^verbatim>\<open>None\<close>.
\<close>

theorem scan_repository_path_validation:
  "(fs path = None \<longrightarrow>
      scan_repository fs path =
        Inl (ValueError (''Repository path does not exist: '' @ path))) \<and>
   (fs path = Some RegularFile \<longrightarrow>
      scan_repository fs path =
        Inr \<lparr>languages = [], frameworks = [], test_tools = [], build_tools = [],
             containers = [], infrastructure = [], package_managers = [],
             repo_path = path, primary_language = None\<rparr>)"
  by (simp add: scan_repository_Inr listing_def empty_tree primary_of_def)
     (simp add: scan_repository_def)

theorem scan_repository_path_validation_witness:
  "scan_repository Map.empty ''/repo'' =
     Inl (ValueError ''Repository path does not exist: /repo'') \<and>
   scan_repository [''/repo/setup.py'' \<mapsto> RegularFile] ''/repo/setup.py'' =
     Inr \<lparr>languages = [], frameworks = [], test_tools = [], build_tools = [],
          containers = [], infrastructure = [], package_managers = [],
          repo_path = ''/repo/setup.py'', primary_language = None\<rparr>"
  using scan_repository_path_validation [of Map.empty "''/repo''"]
    scan_repository_path_validation
      [of "[''/repo/setup.py'' \<mapsto> RegularFile]" "''/repo/setup.py''"]
  by simp

text \<open>
  C3 as the specification states it fails: the path \<^verbatim>\<open>/repo/README.md\<close> names a
  regular file, and the scan returns an analysis instead of raising.
\<close>

theorem scan_repository_not_a_directory_counterexample:
  "scan_repository [''/repo/README.md'' \<mapsto> RegularFile] ''/repo/README.md'' =
     Inr \<lparr>languages = [], frameworks = [], test_tools = [], build_tools = [],
          containers = [], infrastructure = [], package_managers = [],
          repo_path = ''/repo/README.md'', primary_language = None\<rparr>"
  by code_simp

section \<open>Scenario A\<close>

lemma scenario_a_scanned:
  "detect_languages language_rules scenario_a =
     Inr [\<lparr>name = ''python'', version = None, files = [''app.py'', ''requirements.txt''],
           confidence = 1\<rparr>]"
  "detect_frameworks framework_rules scenario_a =
     Inr [\<lparr>name = ''flask'', version = None, files = [''app.py''], confidence = 4 / 5\<rparr>]"
  "detect_test_tools test_tool_rules scenario_a = Inr []"
  "detect_containers container_rules scenario_a = Inr []"
  "detect_infrastructure infrastructure_rules scenario_a = Inr []"
  by code_simp+

lemma scenario_a_rev_scanned:
  "detect_languages language_rules (rev scenario_a) =
     Inr [\<lparr>name = ''python'', version = None, files = [''app.py'', ''requirements.txt''],
           confidence = 1\<rparr>]"
  "detect_frameworks framework_rules (rev scenario_a) =
     Inr [\<lparr>name = ''flask'', version = None, files = [''app.py''], confidence = 4 / 5\<rparr>]"
  "detect_test_tools test_tool_rules (rev scenario_a) = Inr []"
  "detect_containers container_rules (rev scenario_a) = Inr []"
  "detect_infrastructure infrastructure_rules (rev scenario_a) = Inr []"
  by code_simp+

text \<open>
  C8. A directory that holds \<^verbatim>\<open>requirements.txt\<close> with the text \<^verbatim>\<open>flask==2.3.2\<close> and
  \<^verbatim>\<open>app.py\<close> with the text \<^verbatim>\<open>from flask import Flask\<close>, listed in either order: the
  scan returns an analysis, its languages hold an entry named \<^verbatim>\<open>python\<close> with a
  confidence above zero and its frameworks an entry named \<^verbatim>\<open>flask\<close> with a confidence
  above zero.
\<close>

theorem scenario_a_python_flask:
  assumes "fs path = Some (Directory t)" and "t = scenario_a \<or> t = rev scenario_a"
  shows "\<exists>a. scan_repository fs path = Inr a \<and>
           (\<exists>l \<in> set (languages a). name l = ''python'' \<and> 0 < confidence l) \<and>
           (\<exists>f \<in> set (frameworks a). name f = ''flask'' \<and> 0 < confidence f)"
  using assms
  by (auto simp add: scan_repository_Inr listing_def scenario_a_scanned
        scenario_a_rev_scanned)

theorem scenario_a_python_flask_witness:
  "\<exists>a. scan_repository [''/repo'' \<mapsto> Directory scenario_a] ''/repo'' = Inr a \<and>
       (\<exists>l \<in> set (languages a). name l = ''python'' \<and> 0 < confidence l) \<and>
       (\<exists>f \<in> set (frameworks a). name f = ''flask'' \<and> 0 < confidence f)"
  using scenario_a_python_flask
    [of "[''/repo'' \<mapsto> Directory scenario_a]" "''/repo''" scenario_a]
  by simp

section \<open>Sorting and emission\<close>

lemma set_sorted_desc: "set (sorted_desc ts) = set ts"
  by (simp add: sorted_desc_def)

lemma sorted_uminus_rev:
  fixes xs :: "real list"
  shows "sorted (map uminus xs) \<Longrightarrow> sorted (rev xs)"
  by (induction xs) (auto simp add: sorted_append)

lemma sorted_sorted_desc: "sorted (rev (map confidence (sorted_desc ts)))"
proof -
  have "sorted (map (\<lambda>x. - confidence x) (sorted_desc ts))"
    by (simp add: sorted_desc_def)
  then have "sorted (map uminus (map confidence (sorted_desc ts)))"
    by (simp add: comp_def)
  then show ?thesis
    by (rule sorted_uminus_rev)
qed

lemma stable_sorted_desc:
  "filter (\<lambda>t. confidence t = k) (sorted_desc ts) = filter (\<lambda>t. confidence t = k) ts"
  using sort_key_stable [of "\<lambda>x. - confidence x" "- k" ts]
  by (simp add: sorted_desc_def)

lemma map_sum_sorted_Inr:
  "map_sum id sorted_desc x = Inr ts \<longleftrightarrow> (\<exists>us. x = Inr us \<and> ts = sorted_desc us)"
  by (cases x) auto

lemma emit_all_total:
  "\<forall>x \<in> set rs. \<not> isl (ev (fst x) (snd x)) \<Longrightarrow>
   emit_all ev rs = Inr (emit_list (\<lambda>nm r. projr (ev nm r)) rs)"
  by (induction rs) (auto simp add: emit_list_def split: sum.splits)

lemma emit_all_raises:
  "\<exists>x \<in> set rs. isl (ev (fst x) (snd x)) \<Longrightarrow> isl (emit_all ev rs)"
proof (induction rs)
  case Nil
  then show ?case by simp
next
  case (Cons x rs)
  obtain nm r where x: "x = (nm, r)" by (cases x)
  show ?case
  proof (cases "ev nm r")
    case (Inl e)
    then show ?thesis by (simp add: x)
  next
    case (Inr s)
    with Cons.prems have "\<exists>x \<in> set rs. isl (ev (fst x) (snd x))"
      by (auto simp add: x)
    then have "isl (emit_all ev rs)" by (rule Cons.IH)
    then show ?thesis by (cases "emit_all ev rs") (simp_all add: x Inr)
  qed
qed

lemma emit_all_Inr:
  "emit_all ev rs = Inr ts \<longleftrightarrow>
     (\<forall>x \<in> set rs. \<not> isl (ev (fst x) (snd x))) \<and>
     ts = emit_list (\<lambda>nm r. projr (ev nm r)) rs"
proof (cases "\<exists>x \<in> set rs. isl (ev (fst x) (snd x))")
  case True
  then have "isl (emit_all ev rs)" by (rule emit_all_raises)
  with True show ?thesis by auto
next
  case False
  then show ?thesis using emit_all_total [of rs ev] by auto
qed

lemma names_emit_list:
  "map name (emit_list ev rs) = map fst (filter (\<lambda>x. 0 < fst (ev (fst x) (snd x))) rs)"
  by (induction rs) (auto simp add: emit_list_def emit_def)

lemma in_emit_list:
  "t \<in> set (emit_list ev rs) \<longleftrightarrow>
     (\<exists>nm r. (nm, r) \<in> set rs \<and> 0 < fst (ev nm r) \<and>
        t = \<lparr>name = nm, version = None, files = snd (ev nm r),
             confidence = min (fst (ev nm r)) 1\<rparr>)"
  by (induction rs) (auto simp add: emit_list_def emit_def)

lemma py_max_key_first:
  "\<exists>pre post. x # xs = pre @ py_max_key key x xs # post \<and>
     (\<forall>u \<in> set pre. key u < key (py_max_key key x xs)) \<and>
     (\<forall>u \<in> set post. key u \<le> key (py_max_key key x xs))"
proof (induction xs rule: rev_induct)
  case Nil
  show ?case
    by (rule exI [of _ "[]"], rule exI [of _ "[]"]) (simp add: py_max_key_def)
next
  case (snoc y ys)
  let ?m = "py_max_key key x ys"
  from snoc obtain pre post where split: "x # ys = pre @ ?m # post"
    and pre: "\<forall>u \<in> set pre. key u < key ?m" and post: "\<forall>u \<in> set post. key u \<le> key ?m"
    by blast
  show ?case
  proof (cases "key ?m < key y")
    case True
    then have step: "py_max_key key x (ys @ [y]) = y"
      by (simp add: py_max_key_def)
    have "\<forall>u \<in> set (x # ys). key u \<le> key ?m"
      using pre post unfolding split by auto
    then have "\<forall>u \<in> set (x # ys). key u < key y"
      using True by fastforce
    then show ?thesis
      unfolding step
      by (intro exI [of _ "x # ys"] exI [of _ "[]"]) simp
  next
    case False
    then have step: "py_max_key key x (ys @ [y]) = ?m"
      by (simp add: py_max_key_def)
    have "x # ys @ [y] = pre @ ?m # (post @ [y])"
      using split by simp
    moreover have "\<forall>u \<in> set (post @ [y]). key u \<le> key ?m"
      using post False by auto
    ultimately show ?thesis
      unfolding step using pre
      by (intro exI [of _ pre] exI [of _ "post @ [y]"]) simp
  qed
qed



lemma scan_tie_tree:
  "scan_repository [''/repo'' \<mapsto> Directory tie_tree] ''/repo'' = Inr tie_analysis"
  by code_simp

lemma ranked_sorted_emit: "ranked (map fst rs) (sorted_desc (emit_list ev rs))"
proof -
  have "subseq (map name (filter (\<lambda>t. confidence t = k) (emit_list ev rs))) (map fst rs)"
    for k
  proof -
    have "subseq (map name (filter (\<lambda>t. confidence t = k) (emit_list ev rs)))
            (map name (emit_list ev rs))"
      by (rule subseq_map) simp
    also have "subseq (map name (emit_list ev rs)) (map fst rs)"
      unfolding names_emit_list by (rule subseq_map) simp
    finally show ?thesis .
  qed
  then show ?thesis
    by (simp add: ranked_def sorted_sorted_desc stable_sorted_desc)
qed

lemma ranked_detectors:
  "ranked (map fst rs) (detect_build_tools rs t)"
  "ranked (map fst pms) (detect_package_managers pms t)"
  "detect_languages rs t = Inr ts \<Longrightarrow> ranked (map fst rs) ts"
  "detect_frameworks rs t = Inr ts \<Longrightarrow> ranked (map fst rs) ts"
  "detect_test_tools rs t = Inr ts \<Longrightarrow> ranked (map fst rs) ts"
  "detect_containers rs t = Inr ts \<Longrightarrow> ranked (map fst rs) ts"
  "detect_infrastructure rs t = Inr ts \<Longrightarrow> ranked (map fst rs) ts"
  by (auto simp add: detect_languages_def detect_build_tools_def
        detect_package_managers_def detect_frameworks_def detect_test_tools_def
        detect_containers_def detect_infrastructure_def map_sum_sorted_Inr emit_all_Inr
        ranked_sorted_emit)

section \<open>Ranking of the category lists\<close>

text \<open>
  C4. Every one of the seven category lists of a scan is sorted by descending confidence,
  and entries of equal confidence keep the order in which the catalog declares them.
\<close>

theorem category_lists_ranked:
  assumes "scan_repository fs path = Inr a"
  shows "ranked (map fst language_rules) (languages a) \<and>
         ranked (map fst framework_rules) (frameworks a) \<and>
         ranked (map fst test_tool_rules) (test_tools a) \<and>
         ranked (map fst build_tool_rules) (build_tools a) \<and>
         ranked (map fst container_rules) (containers a) \<and>
         ranked (map fst infrastructure_rules) (infrastructure a) \<and>
         ranked (map fst pm_files) (package_managers a)"
  using assms by (auto simp add: scan_repository_Inr ranked_detectors)

theorem category_lists_ranked_witness:
  "ranked (map fst language_rules) (languages tie_analysis) \<and>
   ranked (map fst framework_rules) (frameworks tie_analysis) \<and>
   ranked (map fst test_tool_rules) (test_tools tie_analysis) \<and>
   ranked (map fst build_tool_rules) (build_tools tie_analysis) \<and>
   ranked (map fst container_rules) (containers tie_analysis) \<and>
   ranked (map fst infrastructure_rules) (infrastructure tie_analysis) \<and>
   ranked (map fst pm_files) (package_managers tie_analysis)"
  using category_lists_ranked [OF scan_tie_tree] .

section \<open>The primary language\<close>

text \<open>
  C1. The primary language of a scan result is \<^verbatim>\<open>None\<close> exactly when the language list
  is empty. Otherwise it is the name of an entry of the list whose confidence no entry
  exceeds and which is the first such entry: every entry before it has a strictly smaller
  confidence.
\<close>

theorem primary_language_consistency:
  assumes "scan_repository fs path = Inr a"
  shows "(primary_language a = None \<longleftrightarrow> languages a = []) \<and>
         (languages a \<noteq> [] \<longrightarrow>
            (\<exists>pre t post. languages a = pre @ t # post \<and>
               primary_language a = Some (name t) \<and>
               (\<forall>u \<in> set pre. confidence u < confidence t) \<and>
               (\<forall>u \<in> set post. confidence u \<le> confidence t)))"
proof -
  from assms have p: "primary_language a = primary_of (languages a)"
    by (auto simp add: scan_repository_Inr)
  show ?thesis
  proof (cases "languages a")
    case Nil
    then show ?thesis using p by (simp add: primary_of_def)
  next
    case (Cons l rest)
    from py_max_key_first [of l rest confidence] Cons p show ?thesis
      by (auto simp add: primary_of_def)
  qed
qed

theorem primary_language_consistency_witness:
  "(primary_language tie_analysis = None \<longleftrightarrow> languages tie_analysis = []) \<and>
   (\<exists>pre t post. languages tie_analysis = pre @ t # post \<and>
      primary_language tie_analysis = Some (name t) \<and>
      (\<forall>u \<in> set pre. confidence u < confidence t) \<and>
      (\<forall>u \<in> set post. confidence u \<le> confidence t))"
  using primary_language_consistency [OF scan_tie_tree]
  by (simp add: tie_analysis_def)

lemma scan_scenario_a:
  "scan_repository [''/repo'' \<mapsto> Directory scenario_a] ''/repo'' = Inr scenario_a_analysis"
  by code_simp

section \<open>Invariants of the evidence accumulators\<close>

lemma foldl_preserves:
  "P s \<Longrightarrow> (\<And>s x. P s \<Longrightarrow> x \<in> set xs \<Longrightarrow> P (f s x)) \<Longrightarrow> P (foldl f s xs)"
  by (induction xs arbitrary: s) simp_all

lemma try_fold_preserves:
  "try_fold f xs s = Inr s' \<Longrightarrow> P s \<Longrightarrow>
   (\<And>s x s'. P s \<Longrightarrow> x \<in> set xs \<Longrightarrow> f s x = Inr s' \<Longrightarrow> P s') \<Longrightarrow> P s'"
proof (induction xs arbitrary: s)
  case Nil
  then show ?case by simp
next
  case (Cons x xs)
  from Cons.prems(1) obtain s1 where s1: "f s x = Inr s1" and rest: "try_fold f xs s1 = Inr s'"
    by (auto split: sum.splits)
  have "P s1" using Cons.prems(2) _ s1 by (rule Cons.prems(3)) simp
  from rest this show ?case
  proof (rule Cons.IH)
    fix s2 y s3
    assume "P s2" and "y \<in> set xs" and "f s2 y = Inr s3"
    then show "P s3" using Cons.prems(3) [of s2 y s3] by simp
  qed
qed

lemma try_read_cases:
  "try_read e body s = Inr s' \<Longrightarrow>
   (\<exists>content. read_text e = Inr content \<and> s' = body content) \<or> s' = s"
  by (cases e rule: read_text.cases) (auto simp add: try_read_def)

lemma ext_scan_preserves:
  assumes "ext_scan step t exts lang s = Inr s'" and "P s"
    and "\<And>s x s'. P s \<Longrightarrow> x \<in> set t \<Longrightarrow> step s x = Inr s' \<Longrightarrow> P s'"
  shows "P s'"
proof (cases "map_of exts lang")
  case None
  with assms(1,2) show ?thesis by (simp add: ext_scan_def)
next
  case (Some es)
  with assms(1) have run:
    "try_fold (\<lambda>s ext. try_fold step (rglob t (''*'' @ ext)) s) es s = Inr s'"
    by (simp add: ext_scan_def)
  show ?thesis
  proof (rule try_fold_preserves [where P = P, OF run assms(2)])
    fix s1 ext s2
    assume s1: "P s1" and inner: "try_fold step (rglob t (''*'' @ ext)) s1 = Inr s2"
    show "P s2"
    proof (rule try_fold_preserves [where P = P, OF inner s1])
      fix s3 x s4
      assume "P s3" and "x \<in> set (rglob t (''*'' @ ext))" and "step s3 x = Inr s4"
      then show "P s4" using assms(3) [of s3 x s4] by (simp add: rglob_def)
    qed
  qed
qed

subsection \<open>Every step that adds confidence records a path\<close>

lemma recorded_try_fold:
  assumes "try_fold f xs s = Inr s'" and "recorded s"
    and "\<And>s x s'. recorded s \<Longrightarrow> f s x = Inr s' \<Longrightarrow> recorded s'"
  shows "recorded s'"
  by (rule try_fold_preserves [where P = recorded, OF assms(1,2)]) (rule assms(3))

lemma recorded_foldl:
  assumes "recorded s" and "\<And>s x. recorded s \<Longrightarrow> recorded (f s x)"
  shows "recorded (foldl f s xs)"
  by (rule foldl_preserves [where P = recorded, OF assms(1)]) (rule assms(2))

lemma recorded_ext_scan:
  assumes "ext_scan step t exts lang s = Inr s'" and "recorded s"
    and "\<And>s x s'. recorded s \<Longrightarrow> step s x = Inr s' \<Longrightarrow> recorded s'"
  shows "recorded s'"
  by (rule ext_scan_preserves [where P = recorded, OF assms(1,2)]) (rule assms(3))

lemma recorded_init: "recorded (0, [])"
  by (simp add: recorded_def)

lemma recorded_flat_trigger: "recorded s \<Longrightarrow> recorded (flat_trigger w t s pat)"
  by (auto simp add: recorded_def flat_trigger_def add_flat_def Let_def)

lemma recorded_add_flat: "matches \<noteq> [] \<Longrightarrow> recorded (add_flat w matches s)"
  by (auto simp add: recorded_def add_flat_def)

lemma recorded_lang_file_step: "recorded s \<Longrightarrow> recorded (lang_file_step t s pat)"
  by (auto simp add: recorded_def lang_file_step_def Let_def)

lemma name_step_Inr:
  "lang_name_step pattern s e = Inr u \<longleftrightarrow>
     (is_file e \<or> is_dir e) \<and>
     u = (if is_file e \<and> re_search pattern (name_of (rel_path e))
          then (fst s + 0.2,
                if rel_path e \<notin> set (snd s) then snd s @ [rel_path e] else snd s)
          else s)"
  "tt_name_step pattern s e = Inr u \<longleftrightarrow>
     (is_file e \<or> is_dir e) \<and>
     u = (if is_file e \<and> re_search pattern (name_of (rel_path e))
          then (fst s + 0.4, snd s @ [rel_path e])
          else s)"
  by (cases e; auto simp add: lang_name_step_def tt_name_step_def)+

lemma recorded_lang_name_step:
  "recorded s \<Longrightarrow> lang_name_step pattern s e = Inr s' \<Longrightarrow> recorded s'"
  by (auto simp add: recorded_def name_step_Inr)

lemma recorded_tt_name_step:
  "recorded s \<Longrightarrow> tt_name_step pattern s e = Inr s' \<Longrightarrow> recorded s'"
  by (auto simp add: recorded_def name_step_Inr)

lemma recorded_name_loop:
  assumes "try_fold (\<lambda>s pattern. try_fold (step pattern) (rglob t ''*'') s) ps s = Inr s'"
    and "recorded s"
    and "\<And>pattern s e s'. recorded s \<Longrightarrow> step pattern s e = Inr s' \<Longrightarrow> recorded s'"
  shows "recorded s'"
  using assms(1,2)
proof (rule recorded_try_fold)
  fix s1 pattern s2
  assume "recorded s1" and "try_fold (step pattern) (rglob t ''*'') s1 = Inr s2"
  from this(2,1) show "recorded s2"
    by (rule recorded_try_fold) (rule assms(3))
qed

lemma recorded_content_step:
  "recorded s \<Longrightarrow> content_step w cps s e = Inr s' \<Longrightarrow> recorded s'"
  unfolding content_step_def
  by (drule try_read_cases) (auto simp add: recorded_def split: if_splits)

lemma recorded_tt_content_step:
  "recorded s \<Longrightarrow> tt_content_step cps s e = Inr s' \<Longrightarrow> recorded s'"
  unfolding tt_content_step_def
  by (drule try_read_cases) (auto simp add: recorded_def split: if_splits)

lemma recorded_k8s_step:
  "recorded s \<Longrightarrow> k8s_step cps s e = Inr s' \<Longrightarrow> recorded s'"
  unfolding k8s_step_def
  by (auto simp add: recorded_def dest!: try_read_cases split: if_splits)

lemma recorded_lang_file_channel: "recorded (lang_file_channel t r)"
  unfolding lang_file_channel_def
  by (intro recorded_foldl recorded_init recorded_lang_file_step)

lemma recorded_lang_evidence: "lang_evidence t r = Inr s \<Longrightarrow> recorded s"
  unfolding lang_evidence_def
  by (erule recorded_name_loop [OF _ recorded_lang_file_channel])
    (rule recorded_lang_name_step)

lemma recorded_bt_evidence: "recorded (bt_evidence t r)"
  unfolding bt_evidence_def
  by (intro recorded_foldl recorded_init recorded_flat_trigger)

lemma recorded_pm_evidence: "recorded (pm_evidence t fs)"
  unfolding pm_evidence_def
  by (intro recorded_foldl recorded_init recorded_flat_trigger)

lemma recorded_fw_file_step:
  assumes "recorded s" and "fw_file_step t r s pat = Inr s'"
  shows "recorded s'"
proof (cases "rglob t pat = []")
  case True
  with assms show ?thesis by (simp add: fw_file_step_def)
next
  case False
  show ?thesis
  proof (cases "r_content_patterns r")
    case None
    with assms(2) False have "s' = add_flat 0.5 (rglob t pat) s"
      by (simp add: fw_file_step_def)
    with False show ?thesis by (simp add: recorded_add_flat)
  next
    case (Some cps)
    with assms(2) False have "try_fold (content_step 0.8 cps) (rglob t pat) s = Inr s'"
      by (simp add: fw_file_step_def)
    then show ?thesis using assms(1) by (rule recorded_try_fold) (rule recorded_content_step)
  qed
qed

lemma recorded_fw_evidence:
  assumes "fw_evidence t r = Inr s"
  shows "recorded s"
proof -
  from assms obtain s1 where
    s1: "try_fold (fw_file_step t r) (r_files r) (0, []) = Inr s1" and
    rest: "(case r_content_patterns r of
              Some cps \<Rightarrow>
                if snd s1 = []
                then ext_scan (content_step 0.3 cps) t fw_file_extensions (r_language r) s1
                else Inr s1
            | None \<Rightarrow> Inr s1) = Inr s"
    by (auto simp add: fw_evidence_def fw_file_channel_def split: sum.splits)
  have r1: "recorded s1"
    using s1 recorded_init by (rule recorded_try_fold) (rule recorded_fw_file_step)
  show ?thesis
  proof (cases "r_content_patterns r")
    case None
    with rest r1 show ?thesis by simp
  next
    case (Some cps)
    show ?thesis
    proof (cases "snd s1 = []")
      case True
      with rest Some
      have "ext_scan (content_step 0.3 cps) t fw_file_extensions (r_language r) s1 = Inr s"
        by simp
      then show ?thesis using r1 by (rule recorded_ext_scan) (rule recorded_content_step)
    next
      case False
      with rest Some r1 show ?thesis by simp
    qed
  qed
qed

lemma recorded_tt_evidence:
  assumes "tt_evidence t r = Inr s"
  shows "recorded s"
proof -
  from assms obtain s2 where s2: "tt_name_channel t r = Inr s2"
    and rest: "(case r_content_patterns r of
                  Some cps \<Rightarrow>
                    ext_scan (tt_content_step cps) t tt_file_extensions (r_language r) s2
                | None \<Rightarrow> Inr s2) = Inr s"
    by (auto simp add: tt_evidence_def split: sum.splits)
  have "recorded (tt_file_channel t r)"
    unfolding tt_file_channel_def
    by (intro recorded_foldl recorded_init recorded_flat_trigger)
  with s2 [unfolded tt_name_channel_def] have r2: "recorded s2"
    by (rule recorded_name_loop) (rule recorded_tt_name_step)
  show ?thesis
  proof (cases "r_content_patterns r")
    case None
    with rest r2 show ?thesis by simp
  next
    case (Some cps)
    with rest
    have "ext_scan (tt_content_step cps) t tt_file_extensions (r_language r) s2 = Inr s"
      by simp
    then show ?thesis using r2 by (rule recorded_ext_scan) (rule recorded_tt_content_step)
  qed
qed

lemma recorded_ct_file_step:
  assumes "recorded s" and "ct_file_step tech t r s pat = Inr s'"
  shows "recorded s'"
proof (cases "rglob t pat = []")
  case True
  with assms show ?thesis by (simp add: ct_file_step_def)
next
  case False
  show ?thesis
  proof (cases "\<exists>cps. r_content_patterns r = Some cps \<and> tech = ''kubernetes''")
    case True
    then obtain cps where cps: "r_content_patterns r = Some cps" "tech = ''kubernetes''"
      by blast
    with assms(2) False have "try_fold (k8s_step cps) (rglob t pat) s = Inr s'"
      by (simp add: ct_file_step_def)
    then show ?thesis using assms(1) by (rule recorded_try_fold) (rule recorded_k8s_step)
  next
    case no: False
    with assms(2) False have "s' = add_flat 0.8 (rglob t pat) s"
      by (auto simp add: ct_file_step_def Let_def split: option.splits if_splits)
    with False show ?thesis by (simp add: recorded_add_flat)
  qed
qed

lemma recorded_ct_evidence:
  assumes "ct_evidence t tech r = Inr s"
  shows "recorded s"
  using assms [unfolded ct_evidence_def] recorded_init
  by (rule recorded_try_fold) (rule recorded_ct_file_step)

lemma recorded_infra_file_step:
  assumes "recorded s" and "infra_file_step t r s pat = Inr s'"
  shows "recorded s'"
proof (cases "rglob t pat = []")
  case True
  with assms show ?thesis by (simp add: infra_file_step_def)
next
  case False
  show ?thesis
  proof (cases "r_content_patterns r")
    case None
    with assms(2) False have "s' = add_flat 0.7 (rglob t pat) s"
      by (simp add: infra_file_step_def)
    with False show ?thesis by (simp add: recorded_add_flat)
  next
    case (Some cps)
    with assms(2) False have "try_fold (content_step 0.8 cps) (rglob t pat) s = Inr s'"
      by (simp add: infra_file_step_def)
    then show ?thesis using assms(1) by (rule recorded_try_fold) (rule recorded_content_step)
  qed
qed

lemma recorded_infra_evidence:
  assumes "infra_evidence t r = Inr s"
  shows "recorded s"
  using assms [unfolded infra_evidence_def] recorded_init
  by (rule recorded_try_fold) (rule recorded_infra_file_step)

subsection \<open>What a scanner emits\<close>

lemma in_emit_all:
  assumes "emit_all ev rs = Inr ts"
  shows "t \<in> set ts \<longleftrightarrow>
     (\<exists>nm r s. (nm, r) \<in> set rs \<and> ev nm r = Inr s \<and> 0 < fst s \<and>
        t = \<lparr>name = nm, version = None, files = snd s, confidence = min (fst s) 1\<rparr>)"
proof -
  from assms have total: "\<forall>x \<in> set rs. \<not> isl (ev (fst x) (snd x))"
    and ts: "ts = emit_list (\<lambda>nm r. projr (ev nm r)) rs"
    by (simp_all add: emit_all_Inr)
  have sel: "ev nm r = Inr (projr (ev nm r))" if "(nm, r) \<in> set rs" for nm r
    using total that by (cases "ev nm r") auto
  show ?thesis
    unfolding ts in_emit_list
  proof (intro iffI; elim exE conjE)
    fix nm r
    assume "(nm, r) \<in> set rs" and "0 < fst (projr (ev nm r))"
      and "t = \<lparr>name = nm, version = None, files = snd (projr (ev nm r)),
                confidence = min (fst (projr (ev nm r))) 1\<rparr>"
    then show "\<exists>nm r s. (nm, r) \<in> set rs \<and> ev nm r = Inr s \<and> 0 < fst s \<and>
        t = \<lparr>name = nm, version = None, files = snd s, confidence = min (fst s) 1\<rparr>"
      using sel by blast
  next
    fix nm r s1
    assume "(nm, r) \<in> set rs" and "ev nm r = Inr s1" and "0 < fst s1"
      and "t = \<lparr>name = nm, version = None, files = snd s1, confidence = min (fst s1) 1\<rparr>"
    then show "\<exists>nm r. (nm, r) \<in> set rs \<and> 0 < fst (projr (ev nm r)) \<and>
        t = \<lparr>name = nm, version = None, files = snd (projr (ev nm r)),
             confidence = min (fst (projr (ev nm r))) 1\<rparr>"
      by force
  qed
qed

lemma emitted_total:
  "t \<in> set (sorted_desc (emit_list ev rs)) \<longleftrightarrow> emitted_by (\<lambda>nm r s. s = ev nm r) rs t"
  by (auto simp add: set_sorted_desc in_emit_list emitted_by_def)

lemma emitted_raising:
  "map_sum id sorted_desc (emit_all ev rs) = Inr ts \<Longrightarrow>
   t \<in> set ts \<longleftrightarrow> emitted_by (\<lambda>nm r s. ev nm r = Inr s) rs t"
proof -
  assume "map_sum id sorted_desc (emit_all ev rs) = Inr ts"
  then obtain us where us: "emit_all ev rs = Inr us" and ts: "ts = sorted_desc us"
    by (auto simp add: map_sum_sorted_Inr)
  show ?thesis
    unfolding ts set_sorted_desc in_emit_all [OF us] emitted_by_def ..
qed

lemma emitted_by_bounds: "emitted_by run rs t \<Longrightarrow> 0 < confidence t \<and> confidence t \<le> 1"
  by (auto simp add: emitted_by_def)

lemma emitted_by_files:
  "emitted_by run rs t \<Longrightarrow> (\<And>nm r s. run nm r s \<Longrightarrow> recorded s) \<Longrightarrow> files t \<noteq> []"
  by (auto simp add: emitted_by_def recorded_def)

lemma emitted_by_absent:
  assumes "distinct (map fst rs)" and "(nm, r) \<in> set rs"
    and "\<And>s. run nm r s \<Longrightarrow> fst s \<le> 0"
  shows "\<not> (\<exists>t. emitted_by run rs t \<and> name t = nm)"
proof
  assume "\<exists>t. emitted_by run rs t \<and> name t = nm"
  then obtain r' s where r': "(nm, r') \<in> set rs" and run: "run nm r' s" and pos: "0 < fst s"
    by (auto simp add: emitted_by_def)
  from assms(1,2) r' have "r' = r" by (metis eq_key_imp_eq_value)
  with run pos assms(3) show False by fastforce
qed

lemma detect_emits:
  "t \<in> set (detect_build_tools rs tr) \<longleftrightarrow>
     emitted_by (\<lambda>nm r s. s = bt_evidence tr r) rs t"
  "t \<in> set (detect_package_managers pms tr) \<longleftrightarrow>
     emitted_by (\<lambda>nm fs s. s = pm_evidence tr fs) pms t"
  unfolding detect_build_tools_def detect_package_managers_def
  by (rule emitted_total)+

lemma detect_emits_raising:
  "detect_languages rs tr = Inr ts \<Longrightarrow>
     t \<in> set ts \<longleftrightarrow> emitted_by (\<lambda>nm r s. lang_evidence tr r = Inr s) rs t"
  "detect_frameworks rs tr = Inr ts \<Longrightarrow>
     t \<in> set ts \<longleftrightarrow> emitted_by (\<lambda>nm r s. fw_evidence tr r = Inr s) rs t"
  "detect_test_tools rs tr = Inr ts \<Longrightarrow>
     t \<in> set ts \<longleftrightarrow> emitted_by (\<lambda>nm r s. tt_evidence tr r = Inr s) rs t"
  "detect_containers rs tr = Inr ts \<Longrightarrow>
     t \<in> set ts \<longleftrightarrow> emitted_by (\<lambda>nm r s. ct_evidence tr nm r = Inr s) rs t"
  "detect_infrastructure rs tr = Inr ts \<Longrightarrow>
     t \<in> set ts \<longleftrightarrow> emitted_by (\<lambda>nm r s. infra_evidence tr r = Inr s) rs t"
  unfolding detect_languages_def detect_frameworks_def detect_test_tools_def
    detect_containers_def detect_infrastructure_def
  by (erule emitted_raising)+

lemma scan_emits:
  assumes "scan_repository fs path = Inr a"
  obtains n where "fs path = Some n"
    and "\<And>t. t \<in> set (languages a) \<longleftrightarrow>
           emitted_by (\<lambda>nm r s. lang_evidence (listing n) r = Inr s) language_rules t"
    and "\<And>t. t \<in> set (frameworks a) \<longleftrightarrow>
           emitted_by (\<lambda>nm r s. fw_evidence (listing n) r = Inr s) framework_rules t"
    and "\<And>t. t \<in> set (test_tools a) \<longleftrightarrow>
           emitted_by (\<lambda>nm r s. tt_evidence (listing n) r = Inr s) test_tool_rules t"
    and "\<And>t. t \<in> set (build_tools a) \<longleftrightarrow>
           emitted_by (\<lambda>nm r s. s = bt_evidence (listing n) r) build_tool_rules t"
    and "\<And>t. t \<in> set (containers a) \<longleftrightarrow>
           emitted_by (\<lambda>nm r s. ct_evidence (listing n) nm r = Inr s) container_rules t"
    and "\<And>t. t \<in> set (infrastructure a) \<longleftrightarrow>
           emitted_by (\<lambda>nm r s. infra_evidence (listing n) r = Inr s) infrastructure_rules t"
    and "\<And>t. t \<in> set (package_managers a) \<longleftrightarrow>
           emitted_by (\<lambda>nm fs s. s = pm_evidence (listing n) fs) pm_files t"
proof -
  from assms obtain n ls fws tts cs infra where n: "fs path = Some n"
    and ls: "detect_languages language_rules (listing n) = Inr ls"
    and fws: "detect_frameworks framework_rules (listing n) = Inr fws"
    and tts: "detect_test_tools test_tool_rules (listing n) = Inr tts"
    and cs: "detect_containers container_rules (listing n) = Inr cs"
    and infra: "detect_infrastructure infrastructure_rules (listing n) = Inr infra"
    and a: "a = \<lparr>languages = ls, frameworks = fws, test_tools = tts,
             build_tools = detect_build_tools build_tool_rules (listing n),
             containers = cs, infrastructure = infra,
             package_managers = detect_package_managers pm_files (listing n),
             repo_path = path, primary_language = primary_of ls\<rparr>"
    unfolding scan_repository_Inr by blast
  show ?thesis
  proof (rule that [OF n])
  qed (simp_all add: a detect_emits detect_emits_raising(1) [OF ls]
        detect_emits_raising(2) [OF fws] detect_emits_raising(3) [OF tts]
        detect_emits_raising(4) [OF cs] detect_emits_raising(5) [OF infra])
qed

section \<open>Evidence files\<close>

text \<open>
  C10. Every technology in any of the seven category lists of a scan result has a
  non-empty list of files: each step that raises the confidence of a rule also records a
  path.
\<close>

theorem emitted_files_nonempty:
  assumes "scan_repository fs path = Inr a"
  shows "\<forall>ts \<in> set (categories a). \<forall>t \<in> set ts. files t \<noteq> []"
proof (rule scan_emits [OF assms], goal_cases)
  case e: (1 n)
  have "files t \<noteq> []" if "t \<in> set (languages a)" for t
    using that unfolding e(2) by (rule emitted_by_files) (rule recorded_lang_evidence)
  moreover have "files t \<noteq> []" if "t \<in> set (frameworks a)" for t
    using that unfolding e(3) by (rule emitted_by_files) (rule recorded_fw_evidence)
  moreover have "files t \<noteq> []" if "t \<in> set (test_tools a)" for t
    using that unfolding e(4) by (rule emitted_by_files) (rule recorded_tt_evidence)
  moreover have "files t \<noteq> []" if "t \<in> set (build_tools a)" for t
    using that unfolding e(5) by (rule emitted_by_files) (simp add: recorded_bt_evidence)
  moreover have "files t \<noteq> []" if "t \<in> set (containers a)" for t
    using that unfolding e(6) by (rule emitted_by_files) (rule recorded_ct_evidence)
  moreover have "files t \<noteq> []" if "t \<in> set (infrastructure a)" for t
    using that unfolding e(7) by (rule emitted_by_files) (rule recorded_infra_evidence)
  moreover have "files t \<noteq> []" if "t \<in> set (package_managers a)" for t
    using that unfolding e(8) by (rule emitted_by_files) (simp add: recorded_pm_evidence)
  ultimately show ?case by (simp add: categories_def)
qed

theorem emitted_files_nonempty_witness:
  "list_all (list_all (\<lambda>t. files t \<noteq> [])) (categories scenario_a_analysis)"
  using emitted_files_nonempty [OF scan_scenario_a]
  by (simp add: list_all_iff)

subsection \<open>A rule without evidence accumulates nothing\<close>

lemma foldl_fixed: "(\<And>x. x \<in> set xs \<Longrightarrow> f s x = s) \<Longrightarrow> foldl f s xs = s"
  by (induction xs) simp_all

lemma try_fold_fixed:
  "try_fold f xs s = Inr s' \<Longrightarrow> (\<And>x s'. x \<in> set xs \<Longrightarrow> f s x = Inr s' \<Longrightarrow> s' = s) \<Longrightarrow>
   s' = s"
  by (rule try_fold_preserves [where P = "\<lambda>u. u = s"]) auto

lemma ext_scan_fixed:
  "ext_scan step t exts lang s = Inr s' \<Longrightarrow>
   (\<And>x s'. x \<in> set t \<Longrightarrow> step s x = Inr s' \<Longrightarrow> s' = s) \<Longrightarrow> s' = s"
  by (rule ext_scan_preserves [where P = "\<lambda>u. u = s"]) auto

lemma unconfirmed_content_step:
  "unconfirmed cps e \<Longrightarrow> content_step w cps s e = Inr s' \<Longrightarrow> s' = s"
  unfolding content_step_def
  by (drule try_read_cases) (auto simp add: unconfirmed_def)

lemma unconfirmed_tt_content_step:
  "unconfirmed cps e \<Longrightarrow> tt_content_step cps s e = Inr s' \<Longrightarrow> s' = s"
  unfolding tt_content_step_def
  by (drule try_read_cases) (auto simp add: unconfirmed_def)

lemma unconfirmed_k8s_step:
  "unconfirmed cps e \<Longrightarrow> k8s_step cps s e = Inr s' \<Longrightarrow> s' = s"
  unfolding k8s_step_def
  by (auto simp add: unconfirmed_def dest!: try_read_cases split: if_splits)

lemma no_evidence_files: "no_evidence t r \<Longrightarrow> pat \<in> set (r_files r) \<Longrightarrow> rglob t pat = []"
  by (simp add: no_evidence_def list_all_iff)

lemma no_evidence_names:
  "no_evidence t r \<Longrightarrow> pattern \<in> set (r_patterns r) \<Longrightarrow> e \<in> set (rglob t pat) \<Longrightarrow>
   \<not> (is_file e \<and> re_search pattern (name_of (rel_path e)))"
  by (auto simp add: no_evidence_def list_all_iff rglob_def)

lemma no_evidence_contents:
  "no_evidence t r \<Longrightarrow> r_content_patterns r = Some cps \<Longrightarrow> e \<in> set t \<Longrightarrow> unconfirmed cps e"
  by (simp add: no_evidence_def list_all_iff)

lemma flat_channel_silent:
  "(\<And>pat. pat \<in> set pats \<Longrightarrow> rglob t pat = []) \<Longrightarrow> foldl (flat_trigger w t) s pats = s"
  by (rule foldl_fixed) (simp add: flat_trigger_def)

lemma name_loop_silent:
  assumes "no_evidence t r"
    and "try_fold (\<lambda>s pattern. try_fold (step pattern) (rglob t ''*'') s) (r_patterns r) s =
           Inr s'"
    and "\<And>pattern a e b. step pattern a e = Inr b \<Longrightarrow>
           \<not> (is_file e \<and> re_search pattern (name_of (rel_path e))) \<Longrightarrow> b = a"
  shows "s' = s"
  using assms(2)
proof (rule try_fold_fixed)
  fix pattern s1
  assume p: "pattern \<in> set (r_patterns r)"
    and "try_fold (step pattern) (rglob t ''*'') s = Inr s1"
  from this(2) show "s1 = s"
  proof (rule try_fold_fixed)
    fix e b assume "e \<in> set (rglob t ''*'')" and "step pattern s e = Inr b"
    with no_evidence_names [OF assms(1) p] assms(3) show "b = s" by blast
  qed
qed

lemma lang_evidence_silent:
  assumes "no_evidence t r" and "lang_evidence t r = Inr s"
  shows "s = (0, [])"
proof -
  have files: "lang_file_channel t r = (0, [])"
    unfolding lang_file_channel_def
    by (rule foldl_fixed) (simp add: lang_file_step_def no_evidence_files [OF assms(1)])
  from assms(2) [unfolded lang_evidence_def files] show ?thesis
    by (rule name_loop_silent [OF assms(1)]) (simp add: name_step_Inr)
qed

lemma bt_evidence_silent: "no_evidence t r \<Longrightarrow> bt_evidence t r = (0, [])"
  unfolding bt_evidence_def by (rule flat_channel_silent) (rule no_evidence_files)

lemma pm_evidence_silent:
  "list_all (\<lambda>pat. rglob t pat = []) fs \<Longrightarrow> pm_evidence t fs = (0, [])"
  unfolding pm_evidence_def by (rule flat_channel_silent) (simp add: list_all_iff)

lemma fw_evidence_silent:
  assumes "no_evidence t r" and "fw_evidence t r = Inr s"
  shows "s = (0, [])"
proof -
  from assms(2) obtain s1 where
    s1: "try_fold (fw_file_step t r) (r_files r) (0, []) = Inr s1" and
    rest: "(case r_content_patterns r of
              Some cps \<Rightarrow>
                if snd s1 = []
                then ext_scan (content_step 0.3 cps) t fw_file_extensions (r_language r) s1
                else Inr s1
            | None \<Rightarrow> Inr s1) = Inr s"
    by (auto simp add: fw_evidence_def fw_file_channel_def split: sum.splits)
  have "s1 = (0, [])"
    using s1
    by (rule try_fold_fixed) (simp add: fw_file_step_def no_evidence_files [OF assms(1)])
  show ?thesis
  proof (cases "r_content_patterns r")
    case None
    with rest \<open>s1 = (0, [])\<close> show ?thesis by simp
  next
    case (Some cps)
    with rest \<open>s1 = (0, [])\<close>
    have "ext_scan (content_step 0.3 cps) t fw_file_extensions (r_language r) (0, []) = Inr s"
      by simp
    then show ?thesis
    proof (rule ext_scan_fixed)
      fix x s' assume "x \<in> set t" and "content_step 0.3 cps (0, []) x = Inr s'"
      then show "s' = (0, [])"
        using unconfirmed_content_step no_evidence_contents [OF assms(1) Some] by blast
    qed
  qed
qed

lemma tt_evidence_silent:
  assumes "no_evidence t r" and "tt_evidence t r = Inr s"
  shows "s = (0, [])"
proof -
  have files: "foldl (flat_trigger 0.6 t) (0, []) (r_files r) = (0, [])"
    by (rule flat_channel_silent) (rule no_evidence_files [OF assms(1)])
  from assms(2) obtain s2 where s2: "tt_name_channel t r = Inr s2"
    and run: "(case r_content_patterns r of
                 Some cps \<Rightarrow>
                   ext_scan (tt_content_step cps) t tt_file_extensions (r_language r) s2
               | None \<Rightarrow> Inr s2) = Inr s"
    by (auto simp add: tt_evidence_def split: sum.splits)
  from s2 [unfolded tt_name_channel_def tt_file_channel_def files] have "s2 = (0, [])"
    by (rule name_loop_silent [OF assms(1)]) (simp add: name_step_Inr)
  note run = run [unfolded this]
  show ?thesis
  proof (cases "r_content_patterns r")
    case None
    with run show ?thesis by simp
  next
    case (Some cps)
    with run
    have "ext_scan (tt_content_step cps) t tt_file_extensions (r_language r) (0, []) = Inr s"
      by simp
    then show ?thesis
    proof (rule ext_scan_fixed)
      fix x s' assume "x \<in> set t" and "tt_content_step cps (0, []) x = Inr s'"
      then show "s' = (0, [])"
        using unconfirmed_tt_content_step no_evidence_contents [OF assms(1) Some] by blast
    qed
  qed
qed

lemma ct_evidence_silent:
  assumes "no_evidence t r" and "ct_evidence t tech r = Inr s"
  shows "s = (0, [])"
  using assms(2) unfolding ct_evidence_def
  by (rule try_fold_fixed) (simp add: ct_file_step_def no_evidence_files [OF assms(1)])

lemma infra_evidence_silent:
  assumes "no_evidence t r" and "infra_evidence t r = Inr s"
  shows "s = (0, [])"
  using assms(2) unfolding infra_evidence_def
  by (rule try_fold_fixed) (simp add: infra_file_step_def no_evidence_files [OF assms(1)])

lemma distinct_catalog:
  "distinct (map fst language_rules)"
  "distinct (map fst framework_rules)"
  "distinct (map fst test_tool_rules)"
  "distinct (map fst build_tool_rules)"
  "distinct (map fst container_rules)"
  "distinct (map fst infrastructure_rules)"
  "distinct (map fst pm_files)"
  by code_simp+

lemma absent_from:
  assumes "\<And>t. t \<in> set ts \<longleftrightarrow> emitted_by run rs t"
    and "distinct (map fst rs)" and "(nm, r) \<in> set rs"
    and "\<And>s. run nm r s \<Longrightarrow> fst s \<le> 0"
  shows "nm \<notin> name ` set ts"
proof
  assume "nm \<in> name ` set ts"
  then obtain t where "emitted_by run rs t" and "name t = nm"
    unfolding assms(1) [symmetric] by auto
  with emitted_by_absent [OF assms(2,3,4)] show False by blast
qed

section \<open>Confidence bound and zero-evidence exclusion\<close>

text \<open>
  C2. Every technology in any of the seven category lists of a scan result has a
  confidence above 0 and at most 1. A rule without evidence in the tree (no entry matches
  one of its globs, no file name matches one of its name patterns, no readable file has a
  text that one of its content patterns matches) has no entry in the list of its category.
\<close>

theorem confidence_bound_and_zero_evidence:
  assumes "scan_repository fs path = Inr a" and "fs path = Some n"
  shows "(\<forall>ts \<in> set (categories a). \<forall>t \<in> set ts. 0 < confidence t \<and> confidence t \<le> 1) \<and>
    (\<forall>(nm, r) \<in> set language_rules.
        no_evidence (listing n) r \<longrightarrow> nm \<notin> name ` set (languages a)) \<and>
    (\<forall>(nm, r) \<in> set framework_rules.
        no_evidence (listing n) r \<longrightarrow> nm \<notin> name ` set (frameworks a)) \<and>
    (\<forall>(nm, r) \<in> set test_tool_rules.
        no_evidence (listing n) r \<longrightarrow> nm \<notin> name ` set (test_tools a)) \<and>
    (\<forall>(nm, r) \<in> set build_tool_rules.
        no_evidence (listing n) r \<longrightarrow> nm \<notin> name ` set (build_tools a)) \<and>
    (\<forall>(nm, r) \<in> set container_rules.
        no_evidence (listing n) r \<longrightarrow> nm \<notin> name ` set (containers a)) \<and>
    (\<forall>(nm, r) \<in> set infrastructure_rules.
        no_evidence (listing n) r \<longrightarrow> nm \<notin> name ` set (infrastructure a)) \<and>
    (\<forall>(nm, pats) \<in> set pm_files.
        list_all (\<lambda>pat. rglob (listing n) pat = []) pats \<longrightarrow>
        nm \<notin> name ` set (package_managers a))"
proof (rule scan_emits [OF assms(1)], goal_cases)
  case e: (1 n')
  from e(1) assms(2) have n: "n' = n" by simp
  note e = e(2-8) [unfolded n]
  have bounds: "\<forall>ts \<in> set (categories a). \<forall>t \<in> set ts. 0 < confidence t \<and> confidence t \<le> 1"
    by (simp add: categories_def e emitted_by_bounds)
  have l: "nm \<notin> name ` set (languages a)"
    if "(nm, r) \<in> set language_rules" "no_evidence (listing n) r" for nm r
    by (rule absent_from [OF e(1) distinct_catalog(1) that(1)])
      (auto dest: lang_evidence_silent [OF that(2)])
  have f: "nm \<notin> name ` set (frameworks a)"
    if "(nm, r) \<in> set framework_rules" "no_evidence (listing n) r" for nm r
    by (rule absent_from [OF e(2) distinct_catalog(2) that(1)])
      (auto dest: fw_evidence_silent [OF that(2)])
  have t: "nm \<notin> name ` set (test_tools a)"
    if "(nm, r) \<in> set test_tool_rules" "no_evidence (listing n) r" for nm r
    by (rule absent_from [OF e(3) distinct_catalog(3) that(1)])
      (auto dest: tt_evidence_silent [OF that(2)])
  have b: "nm \<notin> name ` set (build_tools a)"
    if "(nm, r) \<in> set build_tool_rules" "no_evidence (listing n) r" for nm r
    by (rule absent_from [OF e(4) distinct_catalog(4) that(1)])
      (simp add: bt_evidence_silent [OF that(2)])
  have c: "nm \<notin> name ` set (containers a)"
    if "(nm, r) \<in> set container_rules" "no_evidence (listing n) r" for nm r
    by (rule absent_from [OF e(5) distinct_catalog(5) that(1)])
      (auto dest: ct_evidence_silent [OF that(2)])
  have i: "nm \<notin> name ` set (infrastructure a)"
    if "(nm, r) \<in> set infrastructure_rules" "no_evidence (listing n) r" for nm r
    by (rule absent_from [OF e(6) distinct_catalog(6) that(1)])
      (auto dest: infra_evidence_silent [OF that(2)])
  have p: "nm \<notin> name ` set (package_managers a)"
    if "(nm, pats) \<in> set pm_files" "list_all (\<lambda>pat. rglob (listing n) pat = []) pats"
    for nm pats
    by (rule absent_from [OF e(7) distinct_catalog(7) that(1)])
      (simp add: pm_evidence_silent [OF that(2)])
  show ?case
  proof (intro conjI)
    show "\<forall>ts \<in> set (categories a). \<forall>t \<in> set ts. 0 < confidence t \<and> confidence t \<le> 1"
      by (rule bounds)
    show "\<forall>(nm, r) \<in> set language_rules.
        no_evidence (listing n) r \<longrightarrow> nm \<notin> name ` set (languages a)"
      using l by blast
    show "\<forall>(nm, r) \<in> set framework_rules.
        no_evidence (listing n) r \<longrightarrow> nm \<notin> name ` set (frameworks a)"
      using f by blast
    show "\<forall>(nm, r) \<in> set test_tool_rules.
        no_evidence (listing n) r \<longrightarrow> nm \<notin> name ` set (test_tools a)"
      using t by blast
    show "\<forall>(nm, r) \<in> set build_tool_rules.
        no_evidence (listing n) r \<longrightarrow> nm \<notin> name ` set (build_tools a)"
      using b by blast
    show "\<forall>(nm, r) \<in> set container_rules.
        no_evidence (listing n) r \<longrightarrow> nm \<notin> name ` set (containers a)"
      using c by blast
    show "\<forall>(nm, r) \<in> set infrastructure_rules.
        no_evidence (listing n) r \<longrightarrow> nm \<notin> name ` set (infrastructure a)"
      using i by blast
    show "\<forall>(nm, pats) \<in> set pm_files.
        list_all (\<lambda>pat. rglob (listing n) pat = []) pats \<longrightarrow>
        nm \<notin> name ` set (package_managers a)"
      using p by blast
  qed
qed

theorem confidence_bound_and_zero_evidence_witness:
  "list_all (list_all (\<lambda>t. 0 < confidence t \<and> confidence t \<le> 1))
     (categories scenario_a_analysis) \<and>
   no_evidence scenario_a go_rule \<and> ''go'' \<notin> name ` set (languages scenario_a_analysis) \<and>
   no_evidence scenario_a django_rule \<and>
   ''django'' \<notin> name ` set (frameworks scenario_a_analysis) \<and>
   list_all (\<lambda>pat. rglob scenario_a pat = []) [''yarn.lock''] \<and>
   ''yarn'' \<notin> name ` set (package_managers scenario_a_analysis)"
proof -
  have h: "[''/repo'' \<mapsto> Directory scenario_a] ''/repo'' = Some (Directory scenario_a)"
    by simp
  have ls: "listing (Directory scenario_a) = scenario_a"
    by (simp add: listing_def)
  note T = confidence_bound_and_zero_evidence [OF scan_scenario_a h, unfolded ls]
  note T1 = T [THEN conjunct1]
  note T2 = T [THEN conjunct2, THEN conjunct1]
  note T3 = T [THEN conjunct2, THEN conjunct2, THEN conjunct1]
  note T8 = T [THEN conjunct2, THEN conjunct2, THEN conjunct2, THEN conjunct2,
      THEN conjunct2, THEN conjunct2, THEN conjunct2]
  have go: "(''go'', go_rule) \<in> set language_rules"
    by (simp add: language_rules_def go_rule_def)
  have django: "(''django'', django_rule) \<in> set framework_rules"
    by (simp add: framework_rules_def django_rule_def)
  have yarn: "(''yarn'', [''yarn.lock'']) \<in> set pm_files"
    by (simp add: pm_files_def)
  have ne1: "no_evidence scenario_a go_rule"
    by code_simp
  have ne2: "no_evidence scenario_a django_rule"
    by code_simp
  have ne3: "list_all (\<lambda>pat. rglob scenario_a pat = []) [''yarn.lock'']"
    by code_simp
  have c1: "list_all (list_all (\<lambda>t. 0 < confidence t \<and> confidence t \<le> 1))
     (categories scenario_a_analysis)"
    using T1 unfolding list_all_iff .
  have c2: "''go'' \<notin> name ` set (languages scenario_a_analysis)"
    using bspec [OF T2 go] ne1 by simp
  have c3: "''django'' \<notin> name ` set (frameworks scenario_a_analysis)"
    using bspec [OF T3 django] ne2 by simp
  have c4: "''yarn'' \<notin> name ` set (package_managers scenario_a_analysis)"
    using bspec [OF T8 yarn] ne3 by simp
  from c1 ne1 c2 ne2 c3 ne3 c4 show ?thesis by blast
qed

section \<open>The file-trigger channel\<close>

lemma foldl_adds:
  fixes f :: "evidence \<Rightarrow> 'a \<Rightarrow> evidence"
  assumes "\<And>s x. fst (f s x) = fst s + w * real (g x)"
  shows "fst (foldl f s xs) = fst s + w * real (sum_list (map g xs))"
  by (induction xs arbitrary: s) (simp_all add: assms algebra_simps)

lemma try_fold_adds:
  fixes f :: "evidence \<Rightarrow> 'a \<Rightarrow> exn + evidence"
  assumes "try_fold f xs s = Inr s'"
    and "\<And>s x s'. f s x = Inr s' \<Longrightarrow> fst s' = fst s + w * real (g x)"
  shows "fst s' = fst s + w * real (sum_list (map g xs))"
  using assms(1)
proof (induction xs arbitrary: s)
  case Nil
  then show ?case by simp
next
  case (Cons x xs)
  from Cons.prems obtain s1 where s1: "f s x = Inr s1" and rest: "try_fold f xs s1 = Inr s'"
    by (auto split: sum.splits)
  from Cons.IH [OF rest] assms(2) [OF s1] show ?case
    by (simp add: algebra_simps)
qed

lemma count_as_sum: "length (filter P xs) = sum_list (map (\<lambda>x. if P x then 1 else 0) xs)"
  by (induction xs) simp_all

lemma lang_file_channel_score:
  "fst (lang_file_channel t r) = 0.3 * real (total_matches t (r_files r))"
  unfolding lang_file_channel_def total_matches_def
  by (subst foldl_adds [where w = "0.3" and g = "\<lambda>pat. length (rglob t pat)"])
    (simp_all add: lang_file_step_def Let_def)

lemma flat_channel_score:
  "fst (foldl (flat_trigger w t) s pats) = fst s + w * real (nonempty_triggers t pats)"
  unfolding nonempty_triggers_def count_as_sum
  by (rule foldl_adds) (simp add: flat_trigger_def add_flat_def Let_def)

lemma content_loop_score:
  assumes "try_fold (content_step w cps) es s = Inr s'"
  shows "fst s' = fst s + w * real (length (filter (confirmed cps) es))"
  unfolding count_as_sum
proof (rule try_fold_adds [OF assms])
  fix s :: evidence and x s'
  assume "content_step w cps s x = Inr s'"
  then show "fst s' = fst s + w * real (if confirmed cps x then 1 else 0)"
    by (cases x rule: read_text.cases)
      (auto simp add: content_step_def try_read_def confirmed_def split: if_splits)
qed

lemma k8s_loop_score:
  assumes "try_fold (k8s_step cps) es s = Inr s'"
  shows "fst s' = fst s + 0.7 * real (length (filter
     (\<lambda>m. path_suffix (rel_path m) \<in> set [''.yaml'', ''.yml''] \<and> confirmed cps m) es))"
  unfolding count_as_sum
proof (rule try_fold_adds [OF assms])
  fix s :: evidence and x s'
  assume "k8s_step cps s x = Inr s'"
  then show "fst s' = fst s + 0.7 * real
     (if path_suffix (rel_path x) \<in> set [''.yaml'', ''.yml''] \<and> confirmed cps x
      then 1 else 0)"
    by (cases x rule: read_text.cases)
      (auto simp add: k8s_step_def try_read_def confirmed_def split: if_splits)
qed

lemma fw_file_channel_score:
  assumes "fw_file_channel t r = Inr s"
  shows "fst s =
     (case r_content_patterns r of
        None \<Rightarrow> 0.5 * real (nonempty_triggers t (r_files r))
      | Some cps \<Rightarrow> 0.8 * real (confirmed_matches cps t (r_files r)))"
proof (cases "r_content_patterns r")
  case None
  have "fst s = fst (0 :: real, [] :: string list) +
      0.5 * real (sum_list (map (\<lambda>pat. if rglob t pat \<noteq> [] then 1 else 0) (r_files r)))"
    by (rule try_fold_adds [OF assms [unfolded fw_file_channel_def]])
      (auto simp add: Let_def fw_file_step_def add_flat_def None split: if_splits)
  with None show ?thesis by (simp add: nonempty_triggers_def count_as_sum)
next
  case (Some cps)
  have "fst s = fst (0 :: real, [] :: string list) +
      0.8 * real (sum_list (map (\<lambda>pat. length (filter (confirmed cps) (rglob t pat)))
        (r_files r)))"
  proof (rule try_fold_adds [OF assms [unfolded fw_file_channel_def]])
    fix s1 :: evidence and pat s2
    assume "fw_file_step t r s1 pat = Inr s2"
    then show "fst s2 = fst s1 + 0.8 * real (length (filter (confirmed cps) (rglob t pat)))"
      using content_loop_score [of "0.8" cps "rglob t pat" s1 s2]
      by (auto simp add: Let_def fw_file_step_def Some split: if_splits)
  qed
  with Some show ?thesis by (simp add: confirmed_matches_def)
qed

lemma infra_evidence_score:
  assumes "infra_evidence t r = Inr s"
  shows "fst s =
     (case r_content_patterns r of
        None \<Rightarrow> 0.7 * real (nonempty_triggers t (r_files r))
      | Some cps \<Rightarrow> 0.8 * real (confirmed_matches cps t (r_files r)))"
proof (cases "r_content_patterns r")
  case None
  have "fst s = fst (0 :: real, [] :: string list) +
      0.7 * real (sum_list (map (\<lambda>pat. if rglob t pat \<noteq> [] then 1 else 0) (r_files r)))"
    by (rule try_fold_adds [OF assms [unfolded infra_evidence_def]])
      (auto simp add: Let_def infra_file_step_def add_flat_def None split: if_splits)
  with None show ?thesis by (simp add: nonempty_triggers_def count_as_sum)
next
  case (Some cps)
  have "fst s = fst (0 :: real, [] :: string list) +
      0.8 * real (sum_list (map (\<lambda>pat. length (filter (confirmed cps) (rglob t pat)))
        (r_files r)))"
  proof (rule try_fold_adds [OF assms [unfolded infra_evidence_def]])
    fix s1 :: evidence and pat s2
    assume "infra_file_step t r s1 pat = Inr s2"
    then show "fst s2 = fst s1 + 0.8 * real (length (filter (confirmed cps) (rglob t pat)))"
      using content_loop_score [of "0.8" cps "rglob t pat" s1 s2]
      by (auto simp add: Let_def infra_file_step_def Some split: if_splits)
  qed
  with Some show ?thesis by (simp add: confirmed_matches_def)
qed

lemma ct_evidence_score:
  assumes "ct_evidence t tech r = Inr s"
  shows "fst s =
     (case r_content_patterns r of
        None \<Rightarrow> 0.8 * real (nonempty_triggers t (r_files r))
      | Some cps \<Rightarrow>
          if tech = ''kubernetes''
          then 0.7 * real (k8s_confirmed_matches cps t (r_files r))
          else 0.8 * real (nonempty_triggers t (r_files r)))"
proof (cases "\<exists>cps. r_content_patterns r = Some cps \<and> tech = ''kubernetes''")
  case False
  have "fst s = fst (0 :: real, [] :: string list) +
      0.8 * real (sum_list (map (\<lambda>pat. if rglob t pat \<noteq> [] then 1 else 0) (r_files r)))"
    by (rule try_fold_adds [OF assms [unfolded ct_evidence_def]])
      (use False in \<open>auto simp add: Let_def ct_file_step_def add_flat_def
          split: if_splits option.splits\<close>)
  with False show ?thesis
    by (auto simp add: nonempty_triggers_def count_as_sum split: option.splits)
next
  case True
  then obtain cps where cps: "r_content_patterns r = Some cps" and k: "tech = ''kubernetes''"
    by blast
  have "fst s = fst (0 :: real, [] :: string list) +
      0.7 * real (sum_list (map (\<lambda>pat. length (filter
        (\<lambda>m. path_suffix (rel_path m) \<in> set [''.yaml'', ''.yml''] \<and> confirmed cps m)
        (rglob t pat))) (r_files r)))"
  proof (rule try_fold_adds [OF assms [unfolded ct_evidence_def]])
    fix s1 :: evidence and pat s2
    assume "ct_file_step tech t r s1 pat = Inr s2"
    then show "fst s2 = fst s1 + 0.7 * real (length (filter
        (\<lambda>m. path_suffix (rel_path m) \<in> set [''.yaml'', ''.yml''] \<and> confirmed cps m)
        (rglob t pat)))"
      using k8s_loop_score [of cps "rglob t pat" s1 s2]
      by (auto simp add: Let_def ct_file_step_def cps k split: if_splits)
  qed
  with cps k show ?thesis by (simp add: k8s_confirmed_matches_def)
qed

text \<open>
  C5, as the code has it. In the file-trigger channel the raw score of a language rule
  grows by 0.3 times the number of matches of each glob trigger. For a test-tool rule it
  grows by a flat 0.6, and for a build-tool rule and a package manager by a flat 0.8, for
  each trigger with a non-empty match set. For a framework, infrastructure or container
  rule without content patterns (for containers: any rule but kubernetes) it grows by a
  flat 0.5, 0.7 or 0.8 for each such trigger. For a framework or infrastructure rule with
  content patterns it grows by 0.8, and for kubernetes by 0.7, for each matched file whose
  text a content pattern matches (for kubernetes: among the files whose suffix is
  \<^verbatim>\<open>.yaml\<close> or \<^verbatim>\<open>.yml\<close>), and by nothing for the trigger itself.
\<close>

theorem file_trigger_increments:
  "fst (lang_file_channel t r) = 0.3 * real (total_matches t (r_files r)) \<and>
   fst (tt_file_channel t r) = 0.6 * real (nonempty_triggers t (r_files r)) \<and>
   fst (bt_evidence t r) = 0.8 * real (nonempty_triggers t (r_files r)) \<and>
   fst (pm_evidence t pats) = 0.8 * real (nonempty_triggers t pats) \<and>
   (fw_file_channel t r = Inr s \<longrightarrow>
      fst s =
        (case r_content_patterns r of
           None \<Rightarrow> 0.5 * real (nonempty_triggers t (r_files r))
         | Some cps \<Rightarrow> 0.8 * real (confirmed_matches cps t (r_files r)))) \<and>
   (ct_evidence t tech r = Inr s \<longrightarrow>
      fst s =
        (case r_content_patterns r of
           None \<Rightarrow> 0.8 * real (nonempty_triggers t (r_files r))
         | Some cps \<Rightarrow>
             if tech = ''kubernetes''
             then 0.7 * real (k8s_confirmed_matches cps t (r_files r))
             else 0.8 * real (nonempty_triggers t (r_files r)))) \<and>
   (infra_evidence t r = Inr s \<longrightarrow>
      fst s =
        (case r_content_patterns r of
           None \<Rightarrow> 0.7 * real (nonempty_triggers t (r_files r))
         | Some cps \<Rightarrow> 0.8 * real (confirmed_matches cps t (r_files r))))"
proof (intro conjI impI)
  show "fst (lang_file_channel t r) = 0.3 * real (total_matches t (r_files r))"
    by (rule lang_file_channel_score)
  show "fst (tt_file_channel t r) = 0.6 * real (nonempty_triggers t (r_files r))"
    unfolding tt_file_channel_def flat_channel_score by simp
  show "fst (bt_evidence t r) = 0.8 * real (nonempty_triggers t (r_files r))"
    unfolding bt_evidence_def flat_channel_score by simp
  show "fst (pm_evidence t pats) = 0.8 * real (nonempty_triggers t pats)"
    unfolding pm_evidence_def flat_channel_score by simp
qed (erule fw_file_channel_score ct_evidence_score infra_evidence_score)+

theorem file_trigger_increments_witness:
  "fw_file_channel scenario_a flask_rule = Inr (4 / 5, [''app.py'']) \<and>
   ct_evidence scenario_a ''docker'' flask_rule = Inr (4 / 5, [''app.py'']) \<and>
   infra_evidence scenario_a flask_rule = Inr (4 / 5, [''app.py'']) \<and>
   fst (lang_file_channel scenario_a flask_rule) =
     0.3 * real (total_matches scenario_a [''app.py'']) \<and>
   fst (tt_file_channel scenario_a flask_rule) =
     0.6 * real (nonempty_triggers scenario_a [''app.py'']) \<and>
   (4 / 5 :: real) = 0.8 * real (confirmed_matches [lit ''from flask import''] scenario_a
     [''app.py'']) \<and>
   (4 / 5 :: real) = 0.8 * real (nonempty_triggers scenario_a [''app.py''])"
proof -
  have h: "fw_file_channel scenario_a flask_rule = Inr (4 / 5, [''app.py''])"
    "ct_evidence scenario_a ''docker'' flask_rule = Inr (4 / 5, [''app.py''])"
    "infra_evidence scenario_a flask_rule = Inr (4 / 5, [''app.py''])"
    by code_simp+
  have r: "r_files flask_rule = [''app.py'']"
    "r_content_patterns flask_rule = Some [lit ''from flask import'']"
    by (simp_all add: flask_rule_def content_rule_def)
  from file_trigger_increments
    [of scenario_a flask_rule "[''app.py'']" "(4 / 5, [''app.py''])" "''docker''"] h
  show ?thesis by (simp add: r)
qed

text \<open>
  C5 as the specification states it fails for test tools and build tools: the tree holds
  one \<^verbatim>\<open>pom.xml\<close>, so 0.3 times the number of matches is 0.3, and the file-trigger
  channel gives junit 0.6 and maven 0.8.
\<close>

theorem file_trigger_increments_counterexample:
  "(''junit'', junit_rule) \<in> set test_tool_rules \<and>
   (''maven'', maven_rule) \<in> set build_tool_rules \<and>
   length (rglob pom_only ''pom.xml'') = 1 \<and>
   tt_file_channel pom_only junit_rule = (3 / 5, [''pom.xml'']) \<and>
   bt_evidence pom_only maven_rule = (4 / 5, [''pom.xml'']) \<and>
   scan_repository [''/repo'' \<mapsto> Directory pom_only] ''/repo'' = Inr pom_only_analysis"
  by code_simp

section \<open>Duplicates among the evidence files\<close>

text \<open>
  C6 fails on the code. In a directory that holds the single file \<^verbatim>\<open>setup.py\<close>, the
  triggers \<^verbatim>\<open>*.py\<close> and \<^verbatim>\<open>setup.py\<close> of the python rule both match that file, and
  \<^verbatim>\<open>found_files.extend\<close> records it once for each: the files of python are
  \<^verbatim>\<open>setup.py, setup.py\<close>.
\<close>

theorem setup_py_recorded_twice:
  "scan_repository [''/repo'' \<mapsto> Directory setup_only] ''/repo'' = Inr setup_only_analysis \<and>
   map files (languages setup_only_analysis) = [[''setup.py'', ''setup.py'']] \<and>
   \<not> distinct [''setup.py'', ''setup.py'']"
  by code_simp

section \<open>Monotonic evidence\<close>

text \<open>
  C7 as the specification states it fails for frameworks. Three python files import
  flask, and the fallback scan gives flask 0.9; with one more file \<^verbatim>\<open>app.py\<close> that
  imports flask, the trigger channel records it, the fallback scan is skipped and flask
  has 0.8.
\<close>

theorem flask_confidence_drops_counterexample:
  "map_sum id (\<lambda>a. map (\<lambda>t. (name t, confidence t)) (frameworks a))
     (scan_repository [''/repo'' \<mapsto> Directory flask_fallback] ''/repo'') =
     Inr [(''flask'', 9 / 10)] \<and>
   map_sum id (\<lambda>a. map (\<lambda>t. (name t, confidence t)) (frameworks a))
     (scan_repository [''/repo'' \<mapsto> Directory (flask_fallback @ [flask_app])] ''/repo'') =
     Inr [(''flask'', 4 / 5)] \<and>
   is_file flask_app \<and> glob_matches ''app.py'' flask_app \<and>
   confirmed [lit ''from flask import''] flask_app"
  by code_simp

section \<open>Unreadable files\<close>

subsection \<open>An unreadable file is scanned as an empty one\<close>

lemma as_empty_simps [simp]:
  "rel_path (as_empty e) = rel_path e"
  "is_file (as_empty e) = is_file e"
  "is_dir (as_empty e) = is_dir e"
  "path_is_file (as_empty e) = path_is_file e"
  "glob_matches pat (as_empty e) = glob_matches pat e"
  by (cases e rule: as_empty.cases; simp add: glob_matches_def)+
























subsection \<open>A scannable tree is scanned to the end\<close>


lemma file_steps_total:
  assumes "is_file e"
  shows "\<exists>s'. content_step w cps s e = Inr s'"
    and "\<exists>s'. tt_content_step cps s e = Inr s'"
    and "\<exists>s'. k8s_step cps s e = Inr s'"
  using assms
  by (cases e rule: read_text.cases;
      simp add: content_step_def tt_content_step_def k8s_step_def try_read_def)+








lemma read_globs_catalog:
  "remdups read_globs =
     [''app.py'', ''package.json'', ''pom.xml'', ''*.go'', ''Gemfile'', ''*.rb'', ''*.py'',
      ''*.js'', ''*.ts'', ''*.java'', ''*.yml'', ''ansible.cfg'', ''*.json'', ''*.yaml'']"
  by code_simp





subsection \<open>What a file adds, whatever reading it gives\<close>
























text \<open>
  A file below a directory that denies search permission is listed by the walk, and
  \<^verbatim>\<open>is_file\<close> raises \<^verbatim>\<open>PermissionError\<close> for it in the loop over the name patterns
  (lines 196--197), under no \<^verbatim>\<open>try\<close>: the scan ends there. A tree with such an entry
  is not scannable.
\<close>

lemma denied_entry_raises:
  "scan_repository [''/repo'' \<mapsto> Directory locked_tree] ''/repo'' = Inl PermissionError"
  "\<not> scannable locked_tree"
  by code_simp+

section \<open>One more file\<close>

lemma grown_insert: "is_file e \<Longrightarrow> grown (xs @ ys) (xs @ e # ys)"
  by (auto simp add: grown_def)

lemma grown_filter: "grown es es' \<Longrightarrow> grown (filter P es) (filter P es')"
proof -
  assume "grown es es'"
  then consider "es' = es"
    | as bs x where "es = as @ bs" "es' = as @ x # bs" "is_file x"
    by (auto simp add: grown_def)
  then show ?thesis
  proof cases
    case 1
    then show ?thesis by (simp add: grown_def)
  next
    case 2
    then show ?thesis
      by (cases "P x") (auto simp add: grown_def)
  qed
qed

lemma grown_rglob: "grown t t' \<Longrightarrow> grown (rglob t pat) (rglob t' pat)"
  unfolding rglob_def by (rule grown_filter)

lemma grown_length: "grown es es' \<Longrightarrow> length es \<le> length es'"
  by (auto simp add: grown_def)

lemma grown_nonempty: "grown es es' \<Longrightarrow> es \<noteq> [] \<Longrightarrow> es' \<noteq> []"
  by (auto simp add: grown_def)

lemma foldl_mono2:
  fixes f g :: "evidence \<Rightarrow> 'a \<Rightarrow> evidence"
  assumes "\<And>s s' x. fst s \<le> fst s' \<Longrightarrow> fst (f s x) \<le> fst (g s' x)"
  shows "fst s \<le> fst s' \<Longrightarrow> fst (foldl f s xs) \<le> fst (foldl g s' xs)"
  by (induction xs arbitrary: s s') (simp_all add: assms)

lemma try_fold_append:
  "try_fold f (xs @ ys) s =
     (case try_fold f xs s of Inl e \<Rightarrow> Inl e | Inr s1 \<Rightarrow> try_fold f ys s1)"
  by (induction xs arbitrary: s) (simp_all split: sum.splits)

lemma try_fold_mono2:
  fixes f g :: "evidence \<Rightarrow> 'a \<Rightarrow> exn + evidence"
  assumes "\<And>s s' x u. fst s \<le> fst s' \<Longrightarrow> f s x = Inr u \<Longrightarrow>
             \<exists>u'. g s' x = Inr u' \<and> fst u \<le> fst u'"
  shows "fst s \<le> fst s' \<Longrightarrow> try_fold f xs s = Inr u \<Longrightarrow>
           \<exists>u'. try_fold g xs s' = Inr u' \<and> fst u \<le> fst u'"
proof (induction xs arbitrary: s s')
  case Nil
  then show ?case by simp
next
  case (Cons x xs)
  from Cons.prems(2) obtain s1 where s1: "f s x = Inr s1" and rest: "try_fold f xs s1 = Inr u"
    by (auto split: sum.splits)
  from assms [OF Cons.prems(1) s1] obtain s1' where s1': "g s' x = Inr s1'"
    and le: "fst s1 \<le> fst s1'" by blast
  from Cons.IH [OF le rest] s1' show ?case by simp
qed

lemma try_fold_grown:
  fixes f :: "evidence \<Rightarrow> entry \<Rightarrow> exn + evidence"
  assumes step_mono: "\<And>s s' x u. fst s \<le> fst s' \<Longrightarrow> f s x = Inr u \<Longrightarrow>
             \<exists>u'. f s' x = Inr u' \<and> fst u \<le> fst u'"
    and step_infl: "\<And>s x. is_file x \<Longrightarrow> \<exists>u. f s x = Inr u \<and> fst s \<le> fst u"
    and "grown es es'" and "fst s \<le> fst s'" and "try_fold f es s = Inr u"
  shows "\<exists>u'. try_fold f es' s' = Inr u' \<and> fst u \<le> fst u'"
proof -
  have m: "\<exists>v'. try_fold f zs b = Inr v' \<and> fst v \<le> fst v'"
    if "fst a \<le> fst b" "try_fold f zs a = Inr v" for a b zs v
  proof (rule try_fold_mono2 [of f f])
    show "fst a \<le> fst b" by fact
    show "try_fold f zs a = Inr v" by fact
  qed (erule step_mono, assumption)
  from assms(3) consider "es' = es"
    | as bs x where "es = as @ bs" "es' = as @ x # bs" "is_file x"
    by (auto simp add: grown_def)
  then show ?thesis
  proof cases
    case 1
    then show ?thesis using m [OF assms(4,5)] by simp
  next
    case 2
    from assms(5) 2(1) obtain s1 where s1: "try_fold f as s = Inr s1"
      and rest: "try_fold f bs s1 = Inr u"
      by (auto simp add: try_fold_append split: sum.splits)
    from m [OF assms(4) s1] obtain s1' where
      s1': "try_fold f as s' = Inr s1'" and le: "fst s1 \<le> fst s1'" by blast
    from step_infl [OF 2(3), of s1'] obtain s2' where s2': "f s1' x = Inr s2'"
      and le2: "fst s1' \<le> fst s2'" by blast
    from le le2 have "fst s1 \<le> fst s2'" by simp
    from m [OF this rest] obtain u' where
      "try_fold f bs s2' = Inr u'" "fst u \<le> fst u'" by blast
    with s1' s2' 2(2) show ?thesis by (simp add: try_fold_append)
  qed
qed

subsection \<open>Steps\<close>

lemma lang_file_step_grows:
  assumes "grown t t'" and "fst s \<le> fst s'"
  shows "fst (lang_file_step t s pat) \<le> fst (lang_file_step t' s' pat)"
proof -
  from assms(1) have g: "grown (rglob t pat) (rglob t' pat)" by (rule grown_rglob)
  have le: "real (length (rglob t pat)) \<le> real (length (rglob t' pat))"
    using grown_length [OF g] by simp
  have up: "fst s' \<le> fst (lang_file_step t' s' pat)"
    by (simp add: lang_file_step_def Let_def)
  show ?thesis
  proof (cases "rglob t pat = []")
    case True
    then have "lang_file_step t s pat = s" by (simp add: lang_file_step_def)
    with assms(2) up show ?thesis by simp
  next
    case False
    with grown_nonempty [OF g] have "rglob t' pat \<noteq> []" by simp
    with False have "fst (lang_file_step t s pat) = fst s + 0.3 * real (length (rglob t pat))"
      and "fst (lang_file_step t' s' pat) = fst s' + 0.3 * real (length (rglob t' pat))"
      by (simp_all add: lang_file_step_def Let_def)
    with assms(2) le show ?thesis by simp
  qed
qed

lemma flat_trigger_grows:
  assumes "grown t t'" and "fst s \<le> fst s'" and "0 \<le> w"
  shows "fst (flat_trigger w t s pat) \<le> fst (flat_trigger w t' s' pat)"
proof -
  from assms(1) have g: "grown (rglob t pat) (rglob t' pat)" by (rule grown_rglob)
  have up: "fst s' \<le> fst (flat_trigger w t' s' pat)"
    using assms(3) by (simp add: flat_trigger_def add_flat_def Let_def)
  show ?thesis
  proof (cases "rglob t pat = []")
    case True
    then have "flat_trigger w t s pat = s" by (simp add: flat_trigger_def)
    with assms(2) up show ?thesis by simp
  next
    case False
    with grown_nonempty [OF g] have "rglob t' pat \<noteq> []" by simp
    with False have "fst (flat_trigger w t s pat) = fst s + w"
      and "fst (flat_trigger w t' s' pat) = fst s' + w"
      by (simp_all add: flat_trigger_def add_flat_def Let_def)
    with assms(2) show ?thesis by simp
  qed
qed

lemma name_steps_mono:
  assumes "fst s \<le> fst s'"
  shows "lang_name_step pattern s x = Inr u \<Longrightarrow>
           \<exists>u'. lang_name_step pattern s' x = Inr u' \<and> fst u \<le> fst u'"
    and "tt_name_step pattern s x = Inr u \<Longrightarrow>
           \<exists>u'. tt_name_step pattern s' x = Inr u' \<and> fst u \<le> fst u'"
  using assms by (auto simp add: name_step_Inr)

lemma name_steps_infl:
  assumes "is_file x"
  shows "\<exists>u. lang_name_step pattern s x = Inr u \<and> fst s \<le> fst u"
    and "\<exists>u. tt_name_step pattern s x = Inr u \<and> fst s \<le> fst u"
  using assms by (auto simp add: name_step_Inr)

lemma name_loop_grows:
  fixes step :: "regex \<Rightarrow> evidence \<Rightarrow> entry \<Rightarrow> exn + evidence"
  assumes step_mono: "\<And>pattern s s' x u. fst s \<le> fst s' \<Longrightarrow> step pattern s x = Inr u \<Longrightarrow>
             \<exists>u'. step pattern s' x = Inr u' \<and> fst u \<le> fst u'"
    and step_infl: "\<And>pattern s x. is_file x \<Longrightarrow>
             \<exists>u. step pattern s x = Inr u \<and> fst s \<le> fst u"
    and "grown t t'" and "fst s \<le> fst s'"
    and "try_fold (\<lambda>s pattern. try_fold (step pattern) (rglob t ''*'') s) ps s = Inr u"
  shows "\<exists>u'. try_fold (\<lambda>s pattern. try_fold (step pattern) (rglob t' ''*'') s) ps s' =
           Inr u' \<and> fst u \<le> fst u'"
proof (rule try_fold_mono2
    [of "\<lambda>s pattern. try_fold (step pattern) (rglob t ''*'') s"
      "\<lambda>s pattern. try_fold (step pattern) (rglob t' ''*'') s"])
  show "fst s \<le> fst s'" by fact
  show "try_fold (\<lambda>s pattern. try_fold (step pattern) (rglob t ''*'') s) ps s = Inr u"
    by fact
next
  fix a a' :: evidence and pattern v
  assume le: "fst a \<le> fst a'"
    and inner: "try_fold (step pattern) (rglob t ''*'') a = Inr v"
  show "\<exists>v'. try_fold (step pattern) (rglob t' ''*'') a' = Inr v' \<and> fst v \<le> fst v'"
  proof (rule try_fold_grown [of "step pattern"])
    show "grown (rglob t ''*'') (rglob t' ''*'')"
      by (rule grown_rglob) fact
    show "fst a \<le> fst a'" by fact
    show "try_fold (step pattern) (rglob t ''*'') a = Inr v" by fact
  qed (erule step_mono, assumption, erule step_infl)
qed

text \<open>
  The score that a content step adds depends on the file only, not on the accumulator.
\<close>

lemma confirmed_simps:
  "confirmed cps (File p (Text c)) = any_search cps c"
  "confirmed cps (File p Undecodable) = False"
  "confirmed cps (File p NoPermission) = False"
  "confirmed cps (Dir p) = False"
  "confirmed cps (Denied p) = False"
  by (simp_all add: confirmed_def)

lemma content_step_simps:
  "content_step w cps s (File p (Text c)) =
     Inr (if any_search cps c then (fst s + w, snd s @ [p]) else s)"
  "content_step w cps s (File p Undecodable) = Inr s"
  "content_step w cps s (File p NoPermission) = Inr s"
  "content_step w cps s (Dir p) = Inl IsADirectoryError"
  "content_step w cps s (Denied p) = Inr s"
  by (simp_all add: content_step_def try_read_def)

lemma tt_content_step_simps:
  "tt_content_step cps s (File p (Text c)) =
     Inr (if any_search cps c
          then (fst s + 0.3, if p \<notin> set (snd s) then snd s @ [p] else snd s) else s)"
  "tt_content_step cps s (File p Undecodable) = Inr s"
  "tt_content_step cps s (File p NoPermission) = Inr s"
  "tt_content_step cps s (Dir p) = Inl IsADirectoryError"
  "tt_content_step cps s (Denied p) = Inr s"
  by (simp_all add: tt_content_step_def try_read_def)

lemma content_step_adds:
  assumes "content_step w cps s x = Inr u"
  shows "fst u = fst s + (if confirmed cps x then w else 0)"
proof (cases x rule: read_text.cases)
  case (1 p c)
  with assms show ?thesis
    by (cases "any_search cps c") (auto simp add: content_step_simps confirmed_simps)
qed (use assms in \<open>auto simp add: content_step_simps confirmed_simps\<close>)

lemma tt_content_step_adds:
  assumes "tt_content_step cps s x = Inr u"
  shows "fst u = fst s + (if confirmed cps x then 0.3 else 0)"
proof (cases x rule: read_text.cases)
  case (1 p c)
  with assms show ?thesis
    by (cases "any_search cps c") (auto simp add: tt_content_step_simps confirmed_simps)
qed (use assms in \<open>auto simp add: tt_content_step_simps confirmed_simps\<close>)

lemma k8s_step_adds:
  assumes "k8s_step cps s x = Inr u"
  shows "fst u = fst s +
     (if path_suffix (rel_path x) \<in> set [''.yaml'', ''.yml''] \<and> confirmed cps x
      then 0.7 else 0)"
proof (cases "path_suffix (rel_path x) \<in> set [''.yaml'', ''.yml'']")
  case False
  with assms show ?thesis by (simp add: k8s_step_def)
next
  case True
  with assms have "content_step 0.7 cps s x = Inr u"
    by (simp add: k8s_step_def content_step_def)
  from content_step_adds [OF this] True show ?thesis by simp
qed

lemma step_returns_again:
  "content_step w cps s x = Inr u \<Longrightarrow> \<exists>u'. content_step w cps s' x = Inr u'"
  "tt_content_step cps s x = Inr u \<Longrightarrow> \<exists>u'. tt_content_step cps s' x = Inr u'"
  "k8s_step cps s x = Inr u \<Longrightarrow> \<exists>u'. k8s_step cps s' x = Inr u'"
proof -
  show "content_step w cps s x = Inr u \<Longrightarrow> \<exists>u'. content_step w cps s' x = Inr u'"
    by (cases x rule: read_text.cases) (simp_all add: content_step_simps)
  show "tt_content_step cps s x = Inr u \<Longrightarrow> \<exists>u'. tt_content_step cps s' x = Inr u'"
    by (cases x rule: read_text.cases) (simp_all add: tt_content_step_simps)
  show "k8s_step cps s x = Inr u \<Longrightarrow> \<exists>u'. k8s_step cps s' x = Inr u'"
    by (cases x rule: read_text.cases)
      (simp_all add: k8s_step_def try_read_def split: if_splits)
qed

lemma content_steps_mono:
  assumes "fst s \<le> fst s'"
  shows "content_step w cps s x = Inr u \<Longrightarrow>
           \<exists>u'. content_step w cps s' x = Inr u' \<and> fst u \<le> fst u'"
    and "tt_content_step cps s x = Inr u \<Longrightarrow>
           \<exists>u'. tt_content_step cps s' x = Inr u' \<and> fst u \<le> fst u'"
    and "k8s_step cps s x = Inr u \<Longrightarrow>
           \<exists>u'. k8s_step cps s' x = Inr u' \<and> fst u \<le> fst u'"
proof -
  show "\<exists>u'. content_step w cps s' x = Inr u' \<and> fst u \<le> fst u'"
    if a: "content_step w cps s x = Inr u"
  proof -
    from step_returns_again(1) [OF a] obtain u' where u': "content_step w cps s' x = Inr u'"
      by blast
    from content_step_adds [OF a] content_step_adds [OF u'] assms have "fst u \<le> fst u'"
      by simp
    with u' show ?thesis by blast
  qed
  show "\<exists>u'. tt_content_step cps s' x = Inr u' \<and> fst u \<le> fst u'"
    if a: "tt_content_step cps s x = Inr u"
  proof -
    from step_returns_again(2) [OF a] obtain u' where u': "tt_content_step cps s' x = Inr u'"
      by blast
    from tt_content_step_adds [OF a] tt_content_step_adds [OF u'] assms
    have "fst u \<le> fst u'" by simp
    with u' show ?thesis by blast
  qed
  show "\<exists>u'. k8s_step cps s' x = Inr u' \<and> fst u \<le> fst u'"
    if a: "k8s_step cps s x = Inr u"
  proof -
    from step_returns_again(3) [OF a] obtain u' where u': "k8s_step cps s' x = Inr u'"
      by blast
    from k8s_step_adds [OF a] k8s_step_adds [OF u'] assms have "fst u \<le> fst u'"
      by simp
    with u' show ?thesis by blast
  qed
qed

lemma content_steps_infl:
  assumes "is_file x"
  shows "0 \<le> w \<Longrightarrow> \<exists>u. content_step w cps s x = Inr u \<and> fst s \<le> fst u"
    and "\<exists>u. tt_content_step cps s x = Inr u \<and> fst s \<le> fst u"
    and "\<exists>u. k8s_step cps s x = Inr u \<and> fst s \<le> fst u"
proof -
  from file_steps_total [OF assms] obtain u1 u2 u3 where
    u: "content_step w cps s x = Inr u1" "tt_content_step cps s x = Inr u2"
      "k8s_step cps s x = Inr u3"
    by blast
  show "0 \<le> w \<Longrightarrow> \<exists>u. content_step w cps s x = Inr u \<and> fst s \<le> fst u"
    using content_step_adds [OF u(1)] u(1) by simp
  show "\<exists>u. tt_content_step cps s x = Inr u \<and> fst s \<le> fst u"
    using tt_content_step_adds [OF u(2)] u(2) by simp
  show "\<exists>u. k8s_step cps s x = Inr u \<and> fst s \<le> fst u"
    using k8s_step_adds [OF u(3)] u(3) by simp
qed

subsection \<open>Accumulators\<close>

lemma lang_evidence_grows:
  assumes "grown t t'" and "lang_evidence t r = Inr u"
  shows "\<exists>u'. lang_evidence t' r = Inr u' \<and> fst u \<le> fst u'"
proof -
  have ch: "fst (lang_file_channel t r) \<le> fst (lang_file_channel t' r)"
    unfolding lang_file_channel_def
    by (rule foldl_mono2) (simp_all add: lang_file_step_grows [OF assms(1)])
  show ?thesis
    unfolding lang_evidence_def
    by (rule name_loop_grows [OF _ _ assms(1) ch assms(2) [unfolded lang_evidence_def]])
      (erule name_steps_mono(1), assumption, erule name_steps_infl(1))
qed

lemma flat_channel_grows:
  assumes "grown t t'" and "0 \<le> w"
  shows "fst (foldl (flat_trigger w t) (0, []) pats) \<le>
         fst (foldl (flat_trigger w t') (0, []) pats)"
  by (rule foldl_mono2) (simp_all add: flat_trigger_grows [OF assms(1) _ assms(2)])

lemma bt_pm_evidence_grows:
  assumes "grown t t'"
  shows "fst (bt_evidence t r) \<le> fst (bt_evidence t' r)"
    and "fst (pm_evidence t pats) \<le> fst (pm_evidence t' pats)"
  unfolding bt_evidence_def pm_evidence_def
  by (rule flat_channel_grows [OF assms], simp)+

lemma ext_scan_grows:
  fixes step :: "evidence \<Rightarrow> entry \<Rightarrow> exn + evidence"
  assumes step_mono: "\<And>s s' x u. fst s \<le> fst s' \<Longrightarrow> step s x = Inr u \<Longrightarrow>
             \<exists>u'. step s' x = Inr u' \<and> fst u \<le> fst u'"
    and step_infl: "\<And>s x. is_file x \<Longrightarrow> \<exists>u. step s x = Inr u \<and> fst s \<le> fst u"
    and "grown t t'" and "fst s \<le> fst s'" and "ext_scan step t exts lang s = Inr u"
  shows "\<exists>u'. ext_scan step t' exts lang s' = Inr u' \<and> fst u \<le> fst u'"
proof (cases "map_of exts lang")
  case None
  with assms(4,5) show ?thesis by (simp add: ext_scan_def)
next
  case (Some es)
  with assms(5) have run:
    "try_fold (\<lambda>s ext. try_fold step (rglob t (''*'' @ ext)) s) es s = Inr u"
    by (simp add: ext_scan_def)
  have "\<exists>u'. try_fold (\<lambda>s ext. try_fold step (rglob t' (''*'' @ ext)) s) es s' = Inr u' \<and>
          fst u \<le> fst u'"
  proof (rule try_fold_mono2
      [of "\<lambda>s ext. try_fold step (rglob t (''*'' @ ext)) s"
        "\<lambda>s ext. try_fold step (rglob t' (''*'' @ ext)) s"])
    show "fst s \<le> fst s'" by fact
    show "try_fold (\<lambda>s ext. try_fold step (rglob t (''*'' @ ext)) s) es s = Inr u" by fact
  next
    fix a a' :: evidence and ext v
    assume le: "fst a \<le> fst a'" and inner: "try_fold step (rglob t (''*'' @ ext)) a = Inr v"
    show "\<exists>v'. try_fold step (rglob t' (''*'' @ ext)) a' = Inr v' \<and> fst v \<le> fst v'"
    proof (rule try_fold_grown [of step])
      show "grown (rglob t (''*'' @ ext)) (rglob t' (''*'' @ ext))"
        by (rule grown_rglob) fact
      show "fst a \<le> fst a'" by fact
      show "try_fold step (rglob t (''*'' @ ext)) a = Inr v" by fact
    qed (erule step_mono, assumption, erule step_infl)
  qed
  with Some show ?thesis by (simp add: ext_scan_def)
qed

lemma file_step_alt:
  "fw_file_step t r s pat =
     (case r_content_patterns r of
        None \<Rightarrow> Inr (flat_trigger 0.5 t s pat)
      | Some cps \<Rightarrow> try_fold (content_step 0.8 cps) (rglob t pat) s)"
  "infra_file_step t r s pat =
     (case r_content_patterns r of
        None \<Rightarrow> Inr (flat_trigger 0.7 t s pat)
      | Some cps \<Rightarrow> try_fold (content_step 0.8 cps) (rglob t pat) s)"
  "ct_file_step tech t r s pat =
     (case r_content_patterns r of
        None \<Rightarrow> Inr (flat_trigger 0.8 t s pat)
      | Some cps \<Rightarrow>
          if tech = ''kubernetes'' then try_fold (k8s_step cps) (rglob t pat) s
          else Inr (flat_trigger 0.8 t s pat))"
  by (simp_all add: fw_file_step_def infra_file_step_def ct_file_step_def flat_trigger_def
        Let_def split: option.splits)

lemma content_loop_grows:
  assumes "grown t t'" and "fst s \<le> fst s'" and "0 \<le> w"
    and "try_fold (content_step w cps) (rglob t pat) s = Inr u"
  shows "\<exists>u'. try_fold (content_step w cps) (rglob t' pat) s' = Inr u' \<and> fst u \<le> fst u'"
proof (rule try_fold_grown [of "content_step w cps"])
  show "grown (rglob t pat) (rglob t' pat)" by (rule grown_rglob) fact
  show "fst s \<le> fst s'" by fact
  show "try_fold (content_step w cps) (rglob t pat) s = Inr u" by fact
qed (erule content_steps_mono(1), assumption, erule content_steps_infl(1), fact)

lemma k8s_loop_grows:
  assumes "grown t t'" and "fst s \<le> fst s'"
    and "try_fold (k8s_step cps) (rglob t pat) s = Inr u"
  shows "\<exists>u'. try_fold (k8s_step cps) (rglob t' pat) s' = Inr u' \<and> fst u \<le> fst u'"
proof (rule try_fold_grown [of "k8s_step cps"])
  show "grown (rglob t pat) (rglob t' pat)" by (rule grown_rglob) fact
  show "fst s \<le> fst s'" by fact
  show "try_fold (k8s_step cps) (rglob t pat) s = Inr u" by fact
qed (erule content_steps_mono(3), assumption, erule content_steps_infl(3))

lemma file_steps_grow:
  assumes "grown t t'" and "fst s \<le> fst s'"
  shows "fw_file_step t r s pat = Inr u \<Longrightarrow>
           \<exists>u'. fw_file_step t' r s' pat = Inr u' \<and> fst u \<le> fst u'"
    and "infra_file_step t r s pat = Inr u \<Longrightarrow>
           \<exists>u'. infra_file_step t' r s' pat = Inr u' \<and> fst u \<le> fst u'"
    and "ct_file_step tech t r s pat = Inr u \<Longrightarrow>
           \<exists>u'. ct_file_step tech t' r s' pat = Inr u' \<and> fst u \<le> fst u'"
proof -
  note flat = flat_trigger_grows [OF assms]
  show "\<exists>u'. fw_file_step t' r s' pat = Inr u' \<and> fst u \<le> fst u'"
    if "fw_file_step t r s pat = Inr u"
  proof (cases "r_content_patterns r")
    case None
    with that flat [of "0.5" pat] show ?thesis by (auto simp add: file_step_alt)
  next
    case (Some cps)
    with that content_loop_grows [OF assms, of "0.8" cps pat u] show ?thesis
      by (simp add: file_step_alt)
  qed
  show "\<exists>u'. infra_file_step t' r s' pat = Inr u' \<and> fst u \<le> fst u'"
    if "infra_file_step t r s pat = Inr u"
  proof (cases "r_content_patterns r")
    case None
    with that flat [of "0.7" pat] show ?thesis by (auto simp add: file_step_alt)
  next
    case (Some cps)
    with that content_loop_grows [OF assms, of "0.8" cps pat u] show ?thesis
      by (simp add: file_step_alt)
  qed
  show "\<exists>u'. ct_file_step tech t' r s' pat = Inr u' \<and> fst u \<le> fst u'"
    if "ct_file_step tech t r s pat = Inr u"
  proof (cases "\<exists>cps. r_content_patterns r = Some cps \<and> tech = ''kubernetes''")
    case True
    then obtain cps where "r_content_patterns r = Some cps" "tech = ''kubernetes''" by blast
    with that k8s_loop_grows [OF assms, of cps pat u] show ?thesis
      by (simp add: file_step_alt)
  next
    case False
    then have eq: "ct_file_step tech tr r a pat = Inr (flat_trigger 0.8 tr a pat)" for tr a
      by (auto simp add: file_step_alt split: option.splits)
    from that have "u = flat_trigger 0.8 t s pat" by (simp add: eq)
    with flat [of "0.8" pat] show ?thesis by (simp add: eq)
  qed
qed

lemma raising_evidence_grows:
  assumes "grown t t'"
  shows "tt_evidence t r = Inr u \<Longrightarrow> \<exists>u'. tt_evidence t' r = Inr u' \<and> fst u \<le> fst u'"
    and "ct_evidence t tech r = Inr u \<Longrightarrow>
           \<exists>u'. ct_evidence t' tech r = Inr u' \<and> fst u \<le> fst u'"
    and "infra_evidence t r = Inr u \<Longrightarrow>
           \<exists>u'. infra_evidence t' r = Inr u' \<and> fst u \<le> fst u'"
proof -
  have ch: "fst (tt_file_channel t r) \<le> fst (tt_file_channel t' r)"
    unfolding tt_file_channel_def by (rule flat_channel_grows [OF assms]) simp
  show "\<exists>u'. tt_evidence t' r = Inr u' \<and> fst u \<le> fst u'" if run: "tt_evidence t r = Inr u"
  proof -
    from run obtain s2 where s2: "tt_name_channel t r = Inr s2"
      and rest: "(case r_content_patterns r of
                    Some cps \<Rightarrow>
                      ext_scan (tt_content_step cps) t tt_file_extensions (r_language r) s2
                  | None \<Rightarrow> Inr s2) = Inr u"
      by (auto simp add: tt_evidence_def split: sum.splits)
    have "\<exists>s2'. tt_name_channel t' r = Inr s2' \<and> fst s2 \<le> fst s2'"
      unfolding tt_name_channel_def
      by (rule name_loop_grows [OF _ _ assms ch s2 [unfolded tt_name_channel_def]])
        (erule name_steps_mono(2), assumption, erule name_steps_infl(2))
    then obtain s2' where s2': "tt_name_channel t' r = Inr s2'" and names: "fst s2 \<le> fst s2'"
      by blast
    show ?thesis
    proof (cases "r_content_patterns r")
      case None
      with rest names s2' show ?thesis by (simp add: tt_evidence_def)
    next
      case (Some cps)
      with rest have
        "ext_scan (tt_content_step cps) t tt_file_extensions (r_language r) s2 = Inr u"
        by simp
      with assms names
      have "\<exists>u'. ext_scan (tt_content_step cps) t' tt_file_extensions (r_language r) s2' =
               Inr u' \<and> fst u \<le> fst u'"
        by (rule ext_scan_grows [rotated 2])
          (erule content_steps_mono(2), assumption, erule content_steps_infl(2))
      with Some s2' show ?thesis by (simp add: tt_evidence_def)
    qed
  qed
  show "\<exists>u'. ct_evidence t' tech r = Inr u' \<and> fst u \<le> fst u'"
    if "ct_evidence t tech r = Inr u"
    unfolding ct_evidence_def
  proof (rule try_fold_mono2 [of "ct_file_step tech t r" "ct_file_step tech t' r"])
    show "try_fold (ct_file_step tech t r) (r_files r) (0, []) = Inr u"
      using that by (simp add: ct_evidence_def)
  qed (erule file_steps_grow(3) [OF assms], assumption, simp)
  show "\<exists>u'. infra_evidence t' r = Inr u' \<and> fst u \<le> fst u'"
    if "infra_evidence t r = Inr u"
    unfolding infra_evidence_def
  proof (rule try_fold_mono2 [of "infra_file_step t r" "infra_file_step t' r"])
    show "try_fold (infra_file_step t r) (r_files r) (0, []) = Inr u"
      using that by (simp add: infra_evidence_def)
  qed (erule file_steps_grow(2) [OF assms], assumption, simp)
qed

lemma fw_file_channel_grows:
  assumes "grown t t'" and "fw_file_channel t r = Inr u"
  shows "\<exists>u'. fw_file_channel t' r = Inr u' \<and> fst u \<le> fst u'"
  unfolding fw_file_channel_def
proof (rule try_fold_mono2 [of "fw_file_step t r" "fw_file_step t' r"])
  show "try_fold (fw_file_step t r) (r_files r) (0, []) = Inr u"
    using assms(2) by (simp add: fw_file_channel_def)
qed (erule file_steps_grow(1) [OF assms(1)], assumption, simp)

lemma grounded_fw_file_channel:
  assumes "fw_file_channel t r = Inr s"
  shows "grounded s"
proof (rule try_fold_preserves [where P = grounded, OF assms [unfolded fw_file_channel_def]])
  show "grounded (0, [])" by (simp add: grounded_def)
next
  fix s1 pat s2
  assume g: "grounded s1" and step: "fw_file_step t r s1 pat = Inr s2"
  show "grounded s2"
  proof (cases "r_content_patterns r")
    case None
    with step have "s2 = flat_trigger 0.5 t s1 pat" by (simp add: file_step_alt)
    with g show ?thesis by (auto simp add: grounded_def flat_trigger_def add_flat_def Let_def)
  next
    case (Some cps)
    with step have "try_fold (content_step 0.8 cps) (rglob t pat) s1 = Inr s2"
      by (simp add: file_step_alt)
    then show ?thesis
    proof (rule try_fold_preserves [where P = grounded, OF _ g])
      fix a x b
      assume "grounded a" and "content_step 0.8 cps a x = Inr b"
      then show "grounded b"
        by (cases x rule: read_text.cases)
          (auto simp add: content_step_simps grounded_def split: if_splits)
    qed
  qed
qed

lemma recorded_fw_file_channel: "fw_file_channel t r = Inr s \<Longrightarrow> recorded s"
  unfolding fw_file_channel_def
  by (erule recorded_try_fold [OF _ recorded_init]) (rule recorded_fw_file_step)

lemma fw_evidence_grows:
  assumes "grown t t'" and "fw_evidence t r = Inr u"
  shows "\<exists>u'. fw_evidence t' r = Inr u' \<and> (fst u \<le> fst u' \<or> 0.8 \<le> fst u')"
proof -
  from assms(2) obtain s1 where s1: "fw_file_channel t r = Inr s1"
    by (auto simp add: fw_evidence_def split: sum.splits)
  from fw_file_channel_grows [OF assms(1) s1] obtain s1' where
    s1': "fw_file_channel t' r = Inr s1'" and le: "fst s1 \<le> fst s1'" by blast
  show ?thesis
  proof (cases "r_content_patterns r")
    case None
    with assms(2) s1 s1' le show ?thesis by (simp add: fw_evidence_def)
  next
    case (Some cps)
    show ?thesis
    proof (cases "snd s1' = []")
      case False
      then have new: "fw_evidence t' r = Inr s1'"
        by (simp add: fw_evidence_def s1' Some)
      show ?thesis
      proof (cases "snd s1 = []")
        case False
        with assms(2) have "u = s1" by (simp add: fw_evidence_def s1 Some)
        with new le show ?thesis by simp
      next
        case True
        from grounded_fw_file_channel [OF s1'] \<open>snd s1' \<noteq> []\<close> have pos: "0 < fst s1'"
          by (simp add: grounded_def)
        from fw_file_channel_score [OF s1'] Some
        have "fst s1' = 0.8 * real (confirmed_matches cps t' (r_files r))" by simp
        with pos have "0.8 \<le> fst s1'"
          by (cases "confirmed_matches cps t' (r_files r)") simp_all
        with new show ?thesis by simp
      qed
    next
      case True
      with recorded_fw_file_channel [OF s1'] have "fst s1' \<le> 0"
        by (auto simp add: recorded_def)
      moreover from grounded_fw_file_channel [OF s1] have "0 \<le> fst s1"
        by (simp add: grounded_def)
      ultimately have "fst s1 \<le> 0" using le by simp
      with grounded_fw_file_channel [OF s1] have "snd s1 = []"
        by (auto simp add: grounded_def)
      with assms(2) have
        "ext_scan (content_step 0.3 cps) t fw_file_extensions (r_language r) s1 = Inr u"
        by (simp add: fw_evidence_def s1 Some)
      with assms(1) le
      have "\<exists>u'. ext_scan (content_step 0.3 cps) t' fw_file_extensions (r_language r) s1' =
              Inr u' \<and> fst u \<le> fst u'"
        by (rule ext_scan_grows [rotated 2])
          (erule content_steps_mono(1), assumption, erule content_steps_infl(1), simp)
      with True show ?thesis by (auto simp add: fw_evidence_def s1' Some)
    qed
  qed
qed

subsection \<open>Scanners\<close>

lemma distinct_names_sorted_desc:
  "distinct (map name (sorted_desc ts)) \<longleftrightarrow> distinct (map name ts)"
  by (simp add: distinct_map sorted_desc_def)

lemma distinct_names_emit_list:
  "distinct (map fst rs) \<Longrightarrow> distinct (map name (sorted_desc (emit_list ev rs)))"
  by (simp add: distinct_names_sorted_desc names_emit_list distinct_map_filter)

lemma emitted_by_grows:
  assumes "emitted_by run rs t"
    and sim: "\<And>nm r s. run nm r s \<Longrightarrow> \<exists>s'. run' nm r s' \<and> (fst s \<le> fst s' \<or> b \<le> fst s')"
    and b: "0 < b" "b \<le> 1"
  shows "\<exists>t'. emitted_by run' rs t' \<and> name t' = name t \<and>
           (confidence t \<le> confidence t' \<or> b \<le> confidence t')"
proof -
  from assms(1) obtain nm r s where mem: "(nm, r) \<in> set rs" and run: "run nm r s"
    and pos: "0 < fst s"
    and t: "t = \<lparr>name = nm, version = None, files = snd s, confidence = min (fst s) 1\<rparr>"
    by (auto simp add: emitted_by_def)
  from sim [OF run] obtain s' where run': "run' nm r s'"
    and le: "fst s \<le> fst s' \<or> b \<le> fst s'" by blast
  from le pos b have pos': "0 < fst s'" by auto
  let ?t' = "\<lparr>name = nm, version = None, files = snd s', confidence = min (fst s') 1\<rparr>"
  from mem run' pos' have "emitted_by run' rs ?t'"
    unfolding emitted_by_def by blast
  moreover have "name ?t' = name t" by (simp add: t)
  moreover from le b have "confidence t \<le> confidence ?t' \<or> b \<le> confidence ?t'"
    by (auto simp add: t)
  ultimately show ?thesis by blast
qed

lemma total_scanner_grows:
  assumes sim: "\<And>nm r. fst (ev nm r) \<le> fst (ev' nm r)" and "distinct (map fst rs)"
  shows "retained (sorted_desc (emit_list ev rs)) (sorted_desc (emit_list ev' rs))"
  unfolding retained_def
proof (intro conjI ballI)
  show "distinct (map name (sorted_desc (emit_list ev' rs)))"
    by (rule distinct_names_emit_list) fact
next
  fix t assume "t \<in> set (sorted_desc (emit_list ev rs))"
  then have e: "emitted_by (\<lambda>nm r s. s = ev nm r) rs t" by (simp add: emitted_total)
  have "\<exists>t'. emitted_by (\<lambda>nm r s. s = ev' nm r) rs t' \<and> name t' = name t \<and>
          (confidence t \<le> confidence t' \<or> 1 \<le> confidence t')"
    by (rule emitted_by_grows [OF e]) (simp_all add: sim)
  then obtain t' where t': "emitted_by (\<lambda>nm r s. s = ev' nm r) rs t'" "name t' = name t"
    and le: "confidence t \<le> confidence t' \<or> 1 \<le> confidence t'" by blast
  from emitted_by_bounds [OF e] le have "confidence t \<le> confidence t'" by auto
  with t' show "\<exists>t' \<in> set (sorted_desc (emit_list ev' rs)).
      name t' = name t \<and> confidence t \<le> confidence t'"
    by (auto simp add: emitted_total)
qed

lemma raising_scanner_grows:
  fixes ev ev' :: "string \<Rightarrow> 'r \<Rightarrow> exn + evidence"
  assumes sim: "\<And>nm r u. ev nm r = Inr u \<Longrightarrow>
             \<exists>u'. ev' nm r = Inr u' \<and> (fst u \<le> fst u' \<or> b \<le> fst u')"
    and b: "0 < b" "b \<le> 1" and d: "distinct (map fst rs)"
    and old: "map_sum id sorted_desc (emit_all ev rs) = Inr ts"
  shows "\<exists>ts'. map_sum id sorted_desc (emit_all ev' rs) = Inr ts' \<and> retained_above b ts ts'"
proof -
  from old have tot: "\<forall>x \<in> set rs. \<not> isl (ev (fst x) (snd x))"
    by (auto simp add: map_sum_sorted_Inr emit_all_Inr)
  have "\<forall>x \<in> set rs. \<not> isl (ev' (fst x) (snd x))"
  proof
    fix x assume "x \<in> set rs"
    with tot obtain u where "ev (fst x) (snd x) = Inr u"
      by (cases "ev (fst x) (snd x)") auto
    from sim [OF this] show "\<not> isl (ev' (fst x) (snd x))" by auto
  qed
  then have new: "map_sum id sorted_desc (emit_all ev' rs) =
      Inr (sorted_desc (emit_list (\<lambda>nm r. projr (ev' nm r)) rs))"
    by (simp add: emit_all_total)
  have "retained_above b ts (sorted_desc (emit_list (\<lambda>nm r. projr (ev' nm r)) rs))"
    unfolding retained_above_def
  proof (intro conjI ballI)
    show "distinct (map name (sorted_desc (emit_list (\<lambda>nm r. projr (ev' nm r)) rs)))"
      by (rule distinct_names_emit_list) fact
  next
    fix t assume "t \<in> set ts"
    then have e: "emitted_by (\<lambda>nm r s. ev nm r = Inr s) rs t"
      by (simp add: emitted_raising [OF old])
    have "\<exists>t'. emitted_by (\<lambda>nm r s. ev' nm r = Inr s) rs t' \<and> name t' = name t \<and>
          (confidence t \<le> confidence t' \<or> b \<le> confidence t')"
      by (rule emitted_by_grows [OF e _ b]) (rule sim)
    then show "\<exists>t' \<in> set (sorted_desc (emit_list (\<lambda>nm r. projr (ev' nm r)) rs)).
        name t' = name t \<and> (confidence t \<le> confidence t' \<or> b \<le> confidence t')"
      by (auto simp add: emitted_raising [OF new])
  qed
  with new show ?thesis by blast
qed

lemma retained_above_one:
  assumes "retained_above 1 ts ts'" and "\<forall>t \<in> set ts. confidence t \<le> 1"
  shows "retained ts ts'"
  using assms unfolding retained_above_def retained_def by fastforce

lemma raising_scanner_retained:
  fixes ev ev' :: "string \<Rightarrow> 'r \<Rightarrow> exn + evidence"
  assumes sim: "\<And>nm r u. ev nm r = Inr u \<Longrightarrow> \<exists>u'. ev' nm r = Inr u' \<and> fst u \<le> fst u'"
    and d: "distinct (map fst rs)"
    and old: "map_sum id sorted_desc (emit_all ev rs) = Inr ts"
  shows "\<exists>ts'. map_sum id sorted_desc (emit_all ev' rs) = Inr ts' \<and> retained ts ts'"
proof -
  have "\<exists>ts'. map_sum id sorted_desc (emit_all ev' rs) = Inr ts' \<and> retained_above 1 ts ts'"
  proof (rule raising_scanner_grows [OF _ _ _ d old])
    fix nm r u assume "ev nm r = Inr u"
    from sim [OF this] show "\<exists>u'. ev' nm r = Inr u' \<and> (fst u \<le> fst u' \<or> 1 \<le> fst u')"
      by blast
  qed simp_all
  moreover have "\<forall>t \<in> set ts. confidence t \<le> 1"
  proof
    fix t assume "t \<in> set ts"
    then have "emitted_by (\<lambda>nm r s. ev nm r = Inr s) rs t"
      by (simp add: emitted_raising [OF old])
    from emitted_by_bounds [OF this] show "confidence t \<le> 1" by simp
  qed
  ultimately show ?thesis using retained_above_one by blast
qed

text \<open>
  C7, as the code has it. When a scan returns an analysis and one more file is added to
  the tree, at any place of the listing, the scan of the larger tree returns an analysis
  too, and every technology of the first analysis is in the same category of the second.
  In the languages, the test tools, the build tools, the containers, the infrastructure
  and the package managers its confidence is not smaller. In the frameworks its confidence
  is not smaller or is at least 0.8: the fallback scan over the files of the language runs
  only while the trigger channel has recorded nothing.
\<close>

theorem one_more_file:
  assumes "fs path = Some (Directory (xs @ ys))"
    and "fs' path = Some (Directory (xs @ e # ys))"
    and "is_file e"
    and "scan_repository fs path = Inr a"
  shows "\<exists>a'. scan_repository fs' path = Inr a' \<and>
           retained (languages a) (languages a') \<and>
           retained_above 0.8 (frameworks a) (frameworks a') \<and>
           retained (test_tools a) (test_tools a') \<and>
           retained (build_tools a) (build_tools a') \<and>
           retained (containers a) (containers a') \<and>
           retained (infrastructure a) (infrastructure a') \<and>
           retained (package_managers a) (package_managers a')"
proof -
  let ?t = "xs @ ys" and ?t' = "xs @ e # ys"
  have g: "grown ?t ?t'" by (rule grown_insert) fact
  from assms(1,4) obtain ls fws tts cs infra where
    ls: "detect_languages language_rules ?t = Inr ls"
    and fws: "detect_frameworks framework_rules ?t = Inr fws"
    and tts: "detect_test_tools test_tool_rules ?t = Inr tts"
    and cs: "detect_containers container_rules ?t = Inr cs"
    and infra: "detect_infrastructure infrastructure_rules ?t = Inr infra"
    and a: "a = \<lparr>languages = ls, frameworks = fws, test_tools = tts,
             build_tools = detect_build_tools build_tool_rules ?t,
             containers = cs, infrastructure = infra,
             package_managers = detect_package_managers pm_files ?t,
             repo_path = path, primary_language = primary_of ls\<rparr>"
    by (auto simp add: scan_repository_Inr listing_def)
  have "\<exists>ls'. detect_languages language_rules ?t' = Inr ls' \<and> retained ls ls'"
    unfolding detect_languages_def
    by (rule raising_scanner_retained
        [OF _ distinct_catalog(1) ls [unfolded detect_languages_def]])
      (erule lang_evidence_grows [OF g])
  then obtain ls' where ls': "detect_languages language_rules ?t' = Inr ls'"
    and rl: "retained ls ls'" by blast
  have "\<exists>fws'. detect_frameworks framework_rules ?t' = Inr fws' \<and>
          retained_above 0.8 fws fws'"
    unfolding detect_frameworks_def
    by (rule raising_scanner_grows
        [OF _ _ _ distinct_catalog(2) fws [unfolded detect_frameworks_def]])
      (erule fw_evidence_grows [OF g], simp_all)
  then obtain fws' where fws': "detect_frameworks framework_rules ?t' = Inr fws'"
    and rf: "retained_above 0.8 fws fws'" by blast
  have "\<exists>tts'. detect_test_tools test_tool_rules ?t' = Inr tts' \<and> retained tts tts'"
    unfolding detect_test_tools_def
    by (rule raising_scanner_retained
        [OF _ distinct_catalog(3) tts [unfolded detect_test_tools_def]])
      (erule raising_evidence_grows(1) [OF g])
  then obtain tts' where tts': "detect_test_tools test_tool_rules ?t' = Inr tts'"
    and rt: "retained tts tts'" by blast
  have "\<exists>cs'. detect_containers container_rules ?t' = Inr cs' \<and> retained cs cs'"
    unfolding detect_containers_def
    by (rule raising_scanner_retained
        [OF _ distinct_catalog(5) cs [unfolded detect_containers_def]])
      (erule raising_evidence_grows(2) [OF g])
  then obtain cs' where cs': "detect_containers container_rules ?t' = Inr cs'"
    and rc: "retained cs cs'" by blast
  have "\<exists>infra'. detect_infrastructure infrastructure_rules ?t' = Inr infra' \<and>
          retained infra infra'"
    unfolding detect_infrastructure_def
    by (rule raising_scanner_retained
        [OF _ distinct_catalog(6) infra [unfolded detect_infrastructure_def]])
      (erule raising_evidence_grows(3) [OF g])
  then obtain infra' where infra': "detect_infrastructure infrastructure_rules ?t' = Inr infra'"
    and ri: "retained infra infra'" by blast
  have rb: "retained (detect_build_tools build_tool_rules ?t)
      (detect_build_tools build_tool_rules ?t')"
    unfolding detect_build_tools_def
    by (rule total_scanner_grows [OF bt_pm_evidence_grows(1) [OF g] distinct_catalog(4)])
  have rp: "retained (detect_package_managers pm_files ?t)
      (detect_package_managers pm_files ?t')"
    unfolding detect_package_managers_def
    by (rule total_scanner_grows [OF bt_pm_evidence_grows(2) [OF g] distinct_catalog(7)])
  let ?a' = "\<lparr>languages = ls', frameworks = fws', test_tools = tts',
             build_tools = detect_build_tools build_tool_rules ?t',
             containers = cs', infrastructure = infra',
             package_managers = detect_package_managers pm_files ?t',
             repo_path = path, primary_language = primary_of ls'\<rparr>"
  have "scan_repository fs' path = Inr ?a'"
    by (simp add: scan_repository_Inr assms(2) listing_def ls' fws' tts' cs' infra')
  moreover have "retained (languages a) (languages ?a')"
    "retained_above 0.8 (frameworks a) (frameworks ?a')"
    "retained (test_tools a) (test_tools ?a')"
    "retained (build_tools a) (build_tools ?a')"
    "retained (containers a) (containers ?a')"
    "retained (infrastructure a) (infrastructure ?a')"
    "retained (package_managers a) (package_managers ?a')"
    using rl rf rt rb rc ri rp by (simp_all add: a)
  ultimately show ?thesis by blast
qed

theorem one_more_file_witness:
  "\<exists>a'. scan_repository [''/repo'' \<mapsto> Directory (flask_fallback @ [flask_app])] ''/repo'' =
          Inr a' \<and>
        retained (languages flask_fallback_analysis) (languages a') \<and>
        retained_above 0.8 (frameworks flask_fallback_analysis) (frameworks a') \<and>
        retained (test_tools flask_fallback_analysis) (test_tools a') \<and>
        retained (build_tools flask_fallback_analysis) (build_tools a') \<and>
        retained (containers flask_fallback_analysis) (containers a') \<and>
        retained (infrastructure flask_fallback_analysis) (infrastructure a') \<and>
        retained (package_managers flask_fallback_analysis) (package_managers a')"
proof -
  have old: "scan_repository [''/repo'' \<mapsto> Directory flask_fallback] ''/repo'' =
      Inr flask_fallback_analysis"
    by code_simp
  have h1: "[''/repo'' \<mapsto> Directory flask_fallback] ''/repo'' =
      Some (Directory (flask_fallback @ []))"
    by simp
  have h2: "[''/repo'' \<mapsto> Directory (flask_fallback @ [flask_app])] ''/repo'' =
      Some (Directory (flask_fallback @ flask_app # []))"
    by simp
  have h3: "is_file flask_app"
    by (simp add: flask_app_def)
  show ?thesis
    by (rule one_more_file
        [where fs = "[''/repo'' \<mapsto> Directory flask_fallback]" and path = "''/repo''"
          and fs' = "[''/repo'' \<mapsto> Directory (flask_fallback @ [flask_app])]"
          and xs = flask_fallback and ys = "[]" and e = flask_app
          and a = flask_fallback_analysis, OF h1 h2 h3 old])
qed

end
